theory Spec2Isabelle
  imports Complex_Main "HOL-Library.Multiset" "HOL-Library.Log_Nat"
begin

section \<open>JavaScript string primitives used by the code\<close>

text \<open>
  \<open>String.prototype.split\<close> with a one-character separator: the result always has
  at least one piece, and \<open>n\<close> separators give \<open>n + 1\<close> pieces.
\<close>

fun split :: "char \<Rightarrow> string \<Rightarrow> string list" where
  "split sep [] = [[]]"
| "split sep (c # cs) =
     (if c = sep then [] # split sep cs
      else (case split sep cs of
              [] \<Rightarrow> [[c]]
            | piece # pieces \<Rightarrow> (c # piece) # pieces))"

text \<open>
  White space as \<open>trim\<close> and \<open>parseFloat\<close> strip it: TAB, LF, VT, FF, CR and SPACE.
  The non-ASCII white space of ECMAScript (NBSP, BOM, the Unicode space separators,
  LS and PS) is outside this byte-level model.
\<close>

definition isWhiteSpace :: "char \<Rightarrow> bool" where
  "isWhiteSpace c \<longleftrightarrow>
     c = CHR 0x09 \<or> c = CHR 0x0A \<or> c = CHR 0x0B \<or> c = CHR 0x0C \<or> c = CHR 0x0D \<or> c = CHR '' ''"

definition trimStart :: "string \<Rightarrow> string" where
  "trimStart s = dropWhile isWhiteSpace s"

definition trim :: "string \<Rightarrow> string" where
  "trim s = rev (dropWhile isWhiteSpace (rev (dropWhile isWhiteSpace s)))"

text \<open>\<open>toLowerCase\<close> on the ASCII letters; other bytes are left as they are.\<close>

definition lowerChar :: "char \<Rightarrow> char" where
  "lowerChar c =
     (case map_of (zip ''ABCDEFGHIJKLMNOPQRSTUVWXYZ'' ''abcdefghijklmnopqrstuvwxyz'') c of
        Some l \<Rightarrow> l
      | None \<Rightarrow> c)"

definition toLowerCase :: "string \<Rightarrow> string" where
  "toLowerCase s = map lowerChar s"

text \<open>\<open>Array.prototype.indexOf\<close>: the first position of the element, or \<open>-1\<close>.\<close>

fun indexOf :: "'a list \<Rightarrow> 'a \<Rightarrow> int" where
  "indexOf [] x = -1"
| "indexOf (y # ys) x =
     (if y = x then 0 else (let r = indexOf ys x in if r = -1 then -1 else r + 1))"

section \<open>JavaScript numbers: parseFloat and addition\<close>

text \<open>
  \<open>getBatchSummary\<close> and \<open>submitBatch\<close> total the amounts with \<open>parseFloat\<close> and
  the \<open>+\<close> of JavaScript numbers, which are IEEE 754 binary64 values. A finite number
  is modelled by the rational it denotes; the two zeros are one value here.
\<close>

datatype jsnumber = Fin rat | PosInfinity | NegInfinity | NaN

definition pow2 :: "int \<Rightarrow> rat" where
  "pow2 e = (if 0 \<le> e then 2 ^ nat e else 1 / 2 ^ nat (- e))"

text \<open>For \<open>x > 0\<close>, the exponent \<open>e\<close> with \<open>2^e \<le> x < 2^(e+1)\<close>.\<close>

definition binExponent :: "rat \<Rightarrow> int" where
  "binExponent x = (if 1 \<le> x then bitlen \<lfloor>x\<rfloor> - 1 else - bitlen (\<lceil>1 / x\<rceil> - 1))"

text \<open>Rounding to the nearest integer, a tie going to the even neighbour.\<close>

definition roundTiesToEven :: "rat \<Rightarrow> int" where
  "roundTiesToEven q =
     (let f = \<lfloor>q\<rfloor>; d = q - of_int f in
      if d < 1 / 2 then f
      else if 1 / 2 < d then f + 1
      else if even f then f else f + 1)"

text \<open>
  The binary64 value of a rational: 53 significant bits, the least exponent of a unit
  in the last place being \<open>-1074\<close> (subnormal numbers), round to nearest with ties to
  even, and overflow to an infinity from \<open>2^1024\<close> on after rounding.
\<close>

definition roundToDouble :: "rat \<Rightarrow> jsnumber" where
  "roundToDouble x =
     (if x = 0 then Fin 0
      else
        (let a = \<bar>x\<bar>;
             e = max (binExponent a - 52) (- 1074);
             r = of_int (roundTiesToEven (a / pow2 e)) * pow2 e
         in if 2 ^ 1024 \<le> r then (if 0 < x then PosInfinity else NegInfinity)
            else Fin (if 0 < x then r else - r)))"

text \<open>The \<open>+\<close> of two numbers.\<close>

fun numberAdd :: "jsnumber \<Rightarrow> jsnumber \<Rightarrow> jsnumber" where
  "numberAdd (Fin a) (Fin b) = roundToDouble (a + b)"
| "numberAdd NaN _ = NaN"
| "numberAdd _ NaN = NaN"
| "numberAdd PosInfinity NegInfinity = NaN"
| "numberAdd NegInfinity PosInfinity = NaN"
| "numberAdd PosInfinity _ = PosInfinity"
| "numberAdd _ PosInfinity = PosInfinity"
| "numberAdd NegInfinity _ = NegInfinity"
| "numberAdd _ NegInfinity = NegInfinity"

text \<open>
  \<open>parseFloat\<close>: leading white space is dropped, then the longest prefix that is a
  \<open>StrDecimalLiteral\<close> is read (an optional sign, then \<open>Infinity\<close> or decimal digits
  with an optional fraction and an optional exponent part); what follows the prefix is
  ignored, and without such a prefix the result is \<open>NaN\<close>.
\<close>

definition isDigit :: "char \<Rightarrow> bool" where
  "isDigit c \<longleftrightarrow> c \<in> set ''0123456789''"

definition digitValue :: "char \<Rightarrow> int" where
  "digitValue c =
     (case map_of (zip ''0123456789'' [0, 1, 2, 3, 4, 5, 6, 7, 8, 9]) c of
        Some d \<Rightarrow> d
      | None \<Rightarrow> 0)"

definition digitsValue :: "string \<Rightarrow> int" where
  "digitsValue ds = foldl (\<lambda>acc c. 10 * acc + digitValue c) 0 ds"

text \<open>
  The exponent part at the head of the rest: \<open>e\<close> or \<open>E\<close>, an optional sign and at
  least one digit; it counts as absent when no digit follows.
\<close>

definition exponentPart :: "string \<Rightarrow> int" where
  "exponentPart r =
     (case r of
        [] \<Rightarrow> 0
      | c # r1 \<Rightarrow>
          if c = CHR ''e'' \<or> c = CHR ''E'' then
            (case r1 of
               [] \<Rightarrow> 0
             | s # r2 \<Rightarrow>
                 if s = CHR ''+'' then
                   (if takeWhile isDigit r2 = [] then 0 else digitsValue (takeWhile isDigit r2))
                 else if s = CHR ''-'' then
                   (if takeWhile isDigit r2 = [] then 0 else - digitsValue (takeWhile isDigit r2))
                 else
                   (if takeWhile isDigit r1 = [] then 0 else digitsValue (takeWhile isDigit r1)))
          else 0)"

definition pow10 :: "int \<Rightarrow> rat" where
  "pow10 e = (if 0 \<le> e then 10 ^ nat e else 1 / 10 ^ nat (- e))"

text \<open>
  The mathematical value of the literal at the head of a text: none, an infinity (with
  its sign), or the exact rational the decimal notation denotes.
\<close>

datatype literal_value = NoLiteral | InfinityLiteral bool | DecimalLiteral rat

definition strUnsignedDecimalLiteral :: "string \<Rightarrow> literal_value" where
  "strUnsignedDecimalLiteral t =
     (if take 8 t = ''Infinity'' then InfinityLiteral False
      else
        (let ip = takeWhile isDigit t;
             r1 = dropWhile isDigit t;
             fp = (case r1 of [] \<Rightarrow> [] | c # r \<Rightarrow> if c = CHR ''.'' then takeWhile isDigit r else []);
             r2 = (case r1 of [] \<Rightarrow> [] | c # r \<Rightarrow> if c = CHR ''.'' then dropWhile isDigit r else r1)
         in if ip = [] \<and> fp = [] then NoLiteral
            else DecimalLiteral ((of_int (digitsValue ip)
                                   + of_int (digitsValue fp) / 10 ^ length fp)
                                 * pow10 (exponentPart r2))))"

definition strDecimalLiteral :: "string \<Rightarrow> literal_value" where
  "strDecimalLiteral t =
     (case t of
        [] \<Rightarrow> NoLiteral
      | c # u \<Rightarrow>
          if c = CHR ''+'' then strUnsignedDecimalLiteral u
          else if c = CHR ''-'' then
            (case strUnsignedDecimalLiteral u of
               NoLiteral \<Rightarrow> NoLiteral
             | InfinityLiteral _ \<Rightarrow> InfinityLiteral True
             | DecimalLiteral v \<Rightarrow> DecimalLiteral (- v))
          else strUnsignedDecimalLiteral t)"

text \<open>
  The value is then rounded to a number. (ECMAScript lets an implementation drop the
  digits after the twentieth significant one before rounding; the model rounds the
  exact value, as the engines in use do.)
\<close>

definition parseFloat :: "string \<Rightarrow> jsnumber" where
  "parseFloat s =
     (case strDecimalLiteral (trimStart s) of
        NoLiteral \<Rightarrow> NaN
      | InfinityLiteral negative \<Rightarrow> (if negative then NegInfinity else PosInfinity)
      | DecimalLiteral v \<Rightarrow> roundToDouble v)"

section \<open>Data model (types.ts, as used by batcher.ts and stellar-service.ts)\<close>

text \<open>
  Several interfaces share field names (\<open>amount\<close>, \<open>asset\<close>, \<open>error\<close>,
  \<open>totalAmount\<close>, \<open>results\<close>). Each record keeps the names of the source; where a
  name is shared, the record declared last owns the short name and the others are
  written with their record's name in front, as in \<open>PaymentResult.amount\<close>.
\<close>

text \<open>
  The object \<open>{ valid, error }\<close> returned by \<open>validatePaymentInstruction\<close>.
  The validator itself (validator.ts) is not among the sources: the functions below
  take it as a parameter.
\<close>

record ValidationResult =
  valid :: bool
  error :: "string option"

datatype payment_status = Success | Failed

record PaymentResult =
  recipient :: string
  amount :: string
  asset :: string
  status :: payment_status
  transactionHash :: "string option"
  error :: "string option"

datatype network_name = Testnet | Mainnet

record ResultSummary =
  successful :: nat
  failed :: nat

text \<open>
  \<open>totalAmount\<close> is kept as the number that the source then prints with
  \<open>toString()\<close>; printing is one-to-one on numbers (the two zeros apart, which are
  one value in this model), so equal strings mean equal numbers and the reverse.
\<close>

record BatchResult =
  totalRecipients :: nat
  totalAmount :: jsnumber
  totalTransactions :: nat
  network :: network_name
  timestamp :: string
  results :: "PaymentResult list"
  summary :: ResultSummary

text \<open>
  A payment instruction carries its three fields as text. TypeScript strings are
  modelled as \<open>string\<close>; the code modelled below inspects only their ASCII
  structure (digits, separators, white space).
\<close>

record PaymentInstruction =
  address :: string
  amount :: string
  asset :: string

text \<open>\<open>interface Batch { transactionIndex: number; payments: PaymentInstruction[] }\<close>\<close>

record Batch =
  transactionIndex :: nat
  payments :: "PaymentInstruction list"

section \<open>batcher.ts: createBatches\<close>

text \<open>
  The \<open>for\<close> loop of \<open>createBatches\<close>, with its three mutable locals
  \<open>batches\<close>, \<open>currentBatch\<close> and \<open>transactionIndex\<close> passed as a triple. The bound
  is a JavaScript number; the model takes it as an integer, so that zero and negative
  bounds are inputs too. The comparison \<open>currentBatch.length >= max\<close> happens after
  the push.
\<close>

fun createBatches_loop ::
  "int \<Rightarrow> PaymentInstruction list \<Rightarrow> Batch list \<times> PaymentInstruction list \<times> nat
     \<Rightarrow> Batch list \<times> PaymentInstruction list \<times> nat" where
  "createBatches_loop m [] st = st"
| "createBatches_loop m (instruction # rest) (batches, currentBatch, ti) =
     (let pushed = currentBatch @ [instruction] in
      if int (length pushed) \<ge> m
      then createBatches_loop m rest
             (batches @ [\<lparr>transactionIndex = ti, payments = pushed\<rparr>], [], ti + 1)
      else createBatches_loop m rest (batches, pushed, ti))"

definition createBatches :: "PaymentInstruction list \<Rightarrow> int \<Rightarrow> Batch list" where
  "createBatches instructions maxOperationsPerTransaction =
     (case createBatches_loop maxOperationsPerTransaction instructions ([], [], 0) of
        (batches, currentBatch, ti) \<Rightarrow>
          if length currentBatch > 0
          then batches @ [\<lparr>transactionIndex = ti, payments = currentBatch\<rparr>]
          else batches)"

text \<open>Three instructions shaped like \<open>samplePayments\<close> of the test suite.\<close>

definition samplePayments :: "PaymentInstruction list" where
  "samplePayments =
     [\<lparr>address = ''GBBD47UZM2HN7D7XZIZVG4KVAUC36THN5BES6RMNNOK5TUNXAUCVMAKER'',
        amount = ''100'', asset = ''XLM''\<rparr>,
      \<lparr>address = ''GBJCHUKZMTFSLOMNC7P4TS4VJJBTCYL3AEYZ7R37ZJNHYQM7MDEBC67'',
        amount = ''50'', asset = ''XLM''\<rparr>,
      \<lparr>address = ''GCNY5OXYSY4FKHOPT2SPOQZAOEIGKKAOMWCUT5LPYYCVYHIOW7MFTD'',
        amount = ''75'', asset = ''XLM''\<rparr>]"

section \<open>batcher.ts: parseAsset, and the asset choice of buildTransaction\<close>

text \<open>
  The \<open>issuer\<close> field of the returned object is \<open>null\<close> on the native branch;
  on the other branch it is the second element of the destructured split, which is
  \<open>undefined\<close> when the string has no colon.
\<close>

datatype issuer_value = Null | Undefined | Issuer string

record Asset =
  code :: string
  issuer :: issuer_value

definition parseAsset :: "string \<Rightarrow> Asset" where
  "parseAsset assetString =
     (if assetString = ''XLM'' then \<lparr>code = ''XLM'', issuer = Null\<rparr>
      else (case split CHR '':'' assetString of
              [] \<Rightarrow> \<lparr>code = [], issuer = Undefined\<rparr>
            | [c] \<Rightarrow> \<lparr>code = c, issuer = Undefined\<rparr>
            | c # i # _ \<Rightarrow> \<lparr>code = c, issuer = Issuer i\<rparr>))"

text \<open>
  \<open>buildTransaction\<close> picks the ledger asset of each operation by the test
  \<open>asset.issuer === null\<close>: \<open>StellarAsset.native()\<close> when it holds, and
  \<open>new StellarAsset(asset.code, asset.issuer)\<close> otherwise (also for \<open>undefined\<close>,
  which is not \<open>null\<close> under \<open>===\<close>).
\<close>

datatype StellarAsset = Native | NewStellarAsset string issuer_value

definition stellarAsset :: "Asset \<Rightarrow> StellarAsset" where
  "stellarAsset a = (if issuer a = Null then Native else NewStellarAsset (code a) (issuer a))"

section \<open>batcher.ts: getBatchSummary\<close>

text \<open>
  The object returned by \<open>getBatchSummary\<close>. The \<open>Map\<close> of counts per asset
  string, turned into an object by \<open>Object.fromEntries\<close>, is a finite map from
  asset strings to counts.
\<close>

record BatchSummary =
  recipientCount :: nat
  totalAmount :: jsnumber
  assetBreakdown :: "string \<rightharpoonup> nat"

text \<open>
  The loop body: \<open>totalAmount += parseFloat(instruction.amount)\<close> and
  \<open>assetCount.set(asset, (assetCount.get(asset) || 0) + 1)\<close>.
\<close>

fun getBatchSummary_loop ::
  "PaymentInstruction list \<Rightarrow> jsnumber \<times> (string \<rightharpoonup> nat) \<Rightarrow> jsnumber \<times> (string \<rightharpoonup> nat)" where
  "getBatchSummary_loop [] st = st"
| "getBatchSummary_loop (instruction # rest) (tot, assetCount) =
     getBatchSummary_loop rest
       (numberAdd tot (parseFloat (amount instruction)),
        assetCount(asset instruction \<mapsto>
          (case assetCount (asset instruction) of None \<Rightarrow> 0 | Some c \<Rightarrow> c) + 1))"

definition getBatchSummary :: "PaymentInstruction list \<Rightarrow> BatchSummary" where
  "getBatchSummary instructions =
     (case getBatchSummary_loop instructions (Fin 0, Map.empty) of
        (tot, assetCount) \<Rightarrow>
          \<lparr>recipientCount = length instructions,
           totalAmount = tot,
           assetBreakdown = assetCount\<rparr>)"

section \<open>parser.ts: parseCSV\<close>

text \<open>The four \<open>throw new Error(...)\<close> sites of \<open>parseCSV\<close>; the row error carries \<open>i + 1\<close>.\<close>

datatype csv_error =
    NoHeaderAndDataRow
  | MissingColumns
  | InsufficientColumns nat
  | NoValidInstructions

text \<open>
  The loop over the data rows, \<open>i\<close> running from 1 over \<open>lines[1..]\<close>; the three
  column indices are non-negative when the loop is reached.
\<close>

fun parseRows ::
  "nat \<Rightarrow> nat \<Rightarrow> nat \<Rightarrow> nat \<Rightarrow> string list \<Rightarrow> PaymentInstruction list
     \<Rightarrow> csv_error + PaymentInstruction list" where
  "parseRows addressIndex amountIndex assetIndex i [] instructions = Inr instructions"
| "parseRows addressIndex amountIndex assetIndex i (l # ls) instructions =
     (let line = trim l in
      if length line = 0 then parseRows addressIndex amountIndex assetIndex (i + 1) ls instructions
      else
        (let parts = map trim (split CHR '','' line) in
         if length parts < max addressIndex (max amountIndex assetIndex) + 1
         then Inl (InsufficientColumns (i + 1))
         else parseRows addressIndex amountIndex assetIndex (i + 1) ls
                (instructions @
                   [\<lparr>address = parts ! addressIndex,
                     amount = parts ! amountIndex,
                     asset = parts ! assetIndex\<rparr>])))"

definition parseCSV :: "string \<Rightarrow> csv_error + PaymentInstruction list" where
  "parseCSV content =
     (let lines = split CHR 0x0A (trim content) in
      if length lines < 2 then Inl NoHeaderAndDataRow
      else
        (let headers = map (\<lambda>h. toLowerCase (trim h)) (split CHR '','' (hd lines));
             addressIndex = indexOf headers ''address'';
             amountIndex = indexOf headers ''amount'';
             assetIndex = indexOf headers ''asset''
         in
           if addressIndex = -1 \<or> amountIndex = -1 \<or> assetIndex = -1 then Inl MissingColumns
           else
             (case parseRows (nat addressIndex) (nat amountIndex) (nat assetIndex) 1 (tl lines) [] of
                Inl e \<Rightarrow> Inl e
              | Inr instructions \<Rightarrow>
                  if length instructions = 0 then Inl NoValidInstructions
                  else Inr instructions)))"

section \<open>stellar-service.ts: the service and its collaborators\<close>

text \<open>
  The fields of \<open>StellarService\<close> that \<open>submitBatch\<close> reads: the public key of the
  key pair, the network and the batch bound. The bound is an integer here, as for
  \<open>createBatches\<close>. The constructor, which throws unless \<open>validateBatchConfig\<close>
  accepts the configuration, is not part of the model: the statements below hold for
  every value of the three fields.
\<close>

record StellarService =
  publicKey :: string
  serviceNetwork :: network_name
  maxOperationsPerTransaction :: int

text \<open>
  A value caught by \<open>catch (error)\<close>: an \<open>Error\<close> object with its message, or
  anything else; \<open>error instanceof Error ? error.message : 'Unknown error'\<close>.
\<close>

datatype thrown = ErrorObject string | OtherValue

definition errorMessage :: "thrown \<Rightarrow> string" where
  "errorMessage t = (case t of ErrorObject m \<Rightarrow> m | OtherValue \<Rightarrow> ''Unknown error'')"

text \<open>
  What \<open>buildTransaction\<close> hands to the SDK: the source account with the sequence
  number it was given, the network of the passphrase, and one payment operation per
  instruction, in order.
\<close>

datatype Operation = Payment string StellarAsset string

record Transaction =
  sourcePublicKey :: string
  sourceSequenceNumber :: int
  networkPassphrase :: network_name
  operations :: "Operation list"

text \<open>
  The answer of \<open>server.submitTransaction\<close>: a response with \<open>successful\<close>,
  \<open>hash\<close> and \<open>result_codes?.operations\<close>, or a thrown value (which also stands
  for a throw of \<open>transaction.sign\<close>, inside the same \<open>try\<close>).
\<close>

datatype server_reply =
    Response bool "string option" "string list option"
  | SubmitThrew thrown

text \<open>
  The interactions with the ledger, in the order they happen, each with the answer
  it got: loading the source account (with the sequence number read from it, or the
  failure of the load), and submitting a transaction.
\<close>

datatype ledger_event =
    AccountLoaded string "thrown + int"
  | TransactionSubmitted Transaction server_reply

text \<open>
  The world outside the service. \<open>loadAccount\<close> answers the first call of a run.
  \<open>sdkBuild\<close> says whether the SDK throws while the transaction is put together
  (asset, operation or builder rejecting their arguments). \<open>serverSubmit\<close> answers a
  submission; it sees every interaction so far, so the answer may change from one
  batch to the next in any way.
\<close>

record Environment =
  loadAccount :: "string \<Rightarrow> thrown + int"
  sdkBuild :: "Transaction \<Rightarrow> thrown option"
  serverSubmit :: "ledger_event list \<Rightarrow> Transaction \<Rightarrow> server_reply"

text \<open>The two \<open>throw\<close>s that leave \<open>submitBatch\<close>.\<close>

datatype service_error =
    LoadAccountFailed thrown
  | InvalidPaymentInstruction string "string option"

section \<open>stellar-service.ts: createPaymentBatches\<close>

text \<open>
  The private batching loop validates each instruction as it reaches it and throws at
  the first one that is not valid, naming its address and the validator's message.
\<close>

fun createPaymentBatches_loop ::
  "(PaymentInstruction \<Rightarrow> ValidationResult) \<Rightarrow> int \<Rightarrow> PaymentInstruction list
     \<Rightarrow> PaymentInstruction list list \<times> PaymentInstruction list
     \<Rightarrow> service_error + PaymentInstruction list list \<times> PaymentInstruction list" where
  "createPaymentBatches_loop validate m [] st = Inr st"
| "createPaymentBatches_loop validate m (instruction # rest) (batches, currentBatch) =
     (let validation = validate instruction in
      if \<not> valid validation
      then Inl (InvalidPaymentInstruction (address instruction) (ValidationResult.error validation))
      else
        (let pushed = currentBatch @ [instruction] in
         if int (length pushed) \<ge> m
         then createPaymentBatches_loop validate m rest (batches @ [pushed], [])
         else createPaymentBatches_loop validate m rest (batches, pushed)))"

definition createPaymentBatches ::
  "StellarService \<Rightarrow> (PaymentInstruction \<Rightarrow> ValidationResult) \<Rightarrow> PaymentInstruction list
     \<Rightarrow> service_error + PaymentInstruction list list" where
  "createPaymentBatches svc validate instructions =
     (case createPaymentBatches_loop validate (maxOperationsPerTransaction svc) instructions ([], []) of
        Inl e \<Rightarrow> Inl e
      | Inr (batches, currentBatch) \<Rightarrow>
          Inr (if length currentBatch > 0 then batches @ [currentBatch] else batches))"

section \<open>stellar-service.ts: buildTransaction and submitTransaction\<close>

definition buildTransaction ::
  "StellarService \<Rightarrow> Environment \<Rightarrow> PaymentInstruction list \<Rightarrow> int \<Rightarrow> thrown + Transaction" where
  "buildTransaction svc env instructions sequenceNumber =
     (let transaction =
            \<lparr>sourcePublicKey = publicKey svc,
             sourceSequenceNumber = sequenceNumber,
             networkPassphrase = serviceNetwork svc,
             operations =
               map (\<lambda>payment.
                      Payment (address payment) (stellarAsset (parseAsset (asset payment)))
                        (amount payment))
                 instructions\<rparr>
      in case sdkBuild env transaction of
           Some t \<Rightarrow> Inl t
         | None \<Rightarrow> Inr transaction)"

text \<open>\<open>Array.prototype.join(', ')\<close>.\<close>

fun joinComma :: "string list \<Rightarrow> string" where
  "joinComma [] = []"
| "joinComma [x] = x"
| "joinComma (x # y # ys) = x @ '', '' @ joinComma (y # ys)"

text \<open>
  The result object of \<open>submitTransaction\<close>; it never throws. \<open>a || b\<close> on strings
  takes \<open>b\<close> when \<open>a\<close> is undefined or empty.
\<close>

datatype submit_result = SubmitResult bool "string option" "string option"

definition submitTransaction :: "server_reply \<Rightarrow> submit_result" where
  "submitTransaction reply =
     (case reply of
        Response isSuccessful hash resultCodes \<Rightarrow>
          if isSuccessful then SubmitResult True hash None
          else SubmitResult False None
                 (Some (case resultCodes of
                          None \<Rightarrow> ''Transaction failed''
                        | Some ops \<Rightarrow>
                            if joinComma ops = [] then ''Transaction failed'' else joinComma ops))
      | SubmitThrew t \<Rightarrow> SubmitResult False None (Some (errorMessage t)))"

section \<open>stellar-service.ts: submitBatch\<close>

text \<open>
  The mutable locals of \<open>submitBatch\<close> while the batches are processed, and the
  ledger interactions so far.
\<close>

record run_state =
  results :: "PaymentResult list"
  successCount :: nat
  failCount :: nat
  sequenceNumber :: int
  events :: "ledger_event list"

definition successResult :: "string option \<Rightarrow> PaymentInstruction \<Rightarrow> PaymentResult" where
  "successResult hash instruction =
     \<lparr>recipient = address instruction,
      amount = amount instruction,
      asset = asset instruction,
      status = Success,
      transactionHash = hash,
      error = None\<rparr>"

definition failedResult :: "string \<Rightarrow> PaymentInstruction \<Rightarrow> PaymentResult" where
  "failedResult message instruction =
     \<lparr>recipient = address instruction,
      amount = amount instruction,
      asset = asset instruction,
      status = Failed,
      transactionHash = None,
      error = Some message\<rparr>"

text \<open>
  The body of \<open>for (const batch of batches)\<close>. A throw of \<open>buildTransaction\<close> goes
  to the \<open>catch\<close> branch before anything is submitted; otherwise the transaction is
  submitted and the result object decides the branch. Only the success branch
  increments \<open>sequenceNumber\<close>.
\<close>

definition processBatch ::
  "StellarService \<Rightarrow> Environment \<Rightarrow> run_state \<Rightarrow> PaymentInstruction list \<Rightarrow> run_state" where
  "processBatch svc env st batch =
     (case buildTransaction svc env batch (sequenceNumber st) of
        Inl t \<Rightarrow>
          st\<lparr>results := results st @ map (failedResult (errorMessage t)) batch,
             failCount := failCount st + length batch\<rparr>
      | Inr transaction \<Rightarrow>
          (let reply = serverSubmit env (events st) transaction;
               st1 = st\<lparr>events := events st @ [TransactionSubmitted transaction reply]\<rparr>
           in case submitTransaction reply of
                SubmitResult isSuccess hash err \<Rightarrow>
                  if isSuccess
                  then st1\<lparr>results := results st1 @ map (successResult hash) batch,
                           successCount := successCount st1 + length batch,
                           sequenceNumber := sequenceNumber st1 + 1\<rparr>
                  else st1\<lparr>results := results st1 @
                             map (failedResult
                                    (case err of
                                       None \<Rightarrow> ''Unknown error''
                                     | Some m \<Rightarrow> if m = [] then ''Unknown error'' else m))
                               batch,
                           failCount := failCount st1 + length batch\<rparr>))"

fun processBatches ::
  "StellarService \<Rightarrow> Environment \<Rightarrow> PaymentInstruction list list \<Rightarrow> run_state \<Rightarrow> run_state" where
  "processBatches svc env [] st = st"
| "processBatches svc env (batch # rest) st = processBatches svc env rest (processBatch svc env st batch)"

text \<open>
  \<open>submitBatch\<close>: the account is loaded first, then \<open>createPaymentBatches\<close>
  validates and partitions, then the batches are processed in order. The result is
  the list of ledger interactions of the run together with the thrown error or the
  returned \<open>BatchResult\<close>. \<open>startTime\<close> stands for \<open>new Date().toISOString()\<close>.
\<close>

definition submitBatch ::
  "StellarService \<Rightarrow> (PaymentInstruction \<Rightarrow> ValidationResult) \<Rightarrow> Environment \<Rightarrow> string
     \<Rightarrow> PaymentInstruction list \<Rightarrow> ledger_event list \<times> (service_error + BatchResult)" where
  "submitBatch svc validate env startTime instructions =
     (let sourceAccount = loadAccount env (publicKey svc);
          loaded = [AccountLoaded (publicKey svc) sourceAccount]
      in case sourceAccount of
           Inl t \<Rightarrow> (loaded, Inl (LoadAccountFailed t))
         | Inr sequence \<Rightarrow>
             (case createPaymentBatches svc validate instructions of
                Inl e \<Rightarrow> (loaded, Inl e)
              | Inr batches \<Rightarrow>
                  (let st = processBatches svc env batches
                              \<lparr>results = [], successCount = 0, failCount = 0,
                               sequenceNumber = sequence, events = loaded\<rparr>
                   in (events st,
                       Inr \<lparr>totalRecipients = length instructions,
                            totalAmount =
                              foldl (\<lambda>acc inst. numberAdd acc (parseFloat (amount inst)))
                                (Fin 0) instructions,
                            totalTransactions = length batches,
                            network = serviceNetwork svc,
                            timestamp = startTime,
                            results = results st,
                            summary = \<lparr>successful = successCount st, failed = failCount st\<rparr>\<rparr>))))"

section \<open>Stand-ins for closed examples\<close>

text \<open>
  Modelled from the spec: \<open>validatePaymentInstruction\<close> of validator.ts, which is not
  among the sources. The spec asks for a syntactically valid recipient, an amount that
  parses as a strictly positive decimal, and an asset that is the native token or has
  the form \<open>code:issuer\<close> with both parts non-empty. This stand-in reduces the
  recipient and issuer syntax to "starts with \<open>G\<close>"; it is used only to run the
  service on concrete inputs, and every general statement below holds for any
  validator.
\<close>

definition sampleValidate :: "PaymentInstruction \<Rightarrow> ValidationResult" where
  "sampleValidate instruction =
     (if take 1 (address instruction) \<noteq> ''G''
      then \<lparr>valid = False, error = Some ''Invalid address''\<rparr>
      else if \<not> (case parseFloat (amount instruction) of Fin v \<Rightarrow> 0 < v | _ \<Rightarrow> False)
      then \<lparr>valid = False, error = Some ''Invalid amount''\<rparr>
      else if asset instruction \<noteq> ''XLM'' \<and>
              \<not> (case split CHR '':'' (asset instruction) of
                   [c, i] \<Rightarrow> c \<noteq> [] \<and> take 1 i = ''G''
                 | _ \<Rightarrow> False)
      then \<lparr>valid = False, error = Some ''Invalid asset''\<rparr>
      else \<lparr>valid = True, error = None\<rparr>)"

definition sampleService :: StellarService where
  "sampleService =
     \<lparr>publicKey = ''GSOURCE'', serviceNetwork = Testnet, maxOperationsPerTransaction = 2\<rparr>"

text \<open>
  A ledger whose account has sequence number 7, and which rejects the first
  transaction submitted to it and accepts every later one.
\<close>

definition sampleEnvironment :: Environment where
  "sampleEnvironment =
     \<lparr>loadAccount = (\<lambda>_. Inr 7),
      sdkBuild = (\<lambda>_. None),
      serverSubmit =
        (\<lambda>history _.
           if length history \<le> 1 then Response False None (Some [''op_underfunded''])
           else Response True (Some ''hash'') None)\<rparr>"

text \<open>
  Instructions for the examples on totals: 10.5 and 20.25 (the amounts of the test
  "calculates correct total with decimal amounts"), and 0.1, 0.2 and 0.3.
\<close>

definition tenAndHalf :: PaymentInstruction where
  "tenAndHalf = \<lparr>address = ''GA'', amount = ''10.5'', asset = ''XLM''\<rparr>"

definition twentyAndQuarter :: PaymentInstruction where
  "twentyAndQuarter = \<lparr>address = ''GB'', amount = ''20.25'', asset = ''XLM''\<rparr>"

definition tenth :: PaymentInstruction where
  "tenth = \<lparr>address = ''GA'', amount = ''0.1'', asset = ''XLM''\<rparr>"

definition fifth :: PaymentInstruction where
  "fifth = \<lparr>address = ''GB'', amount = ''0.2'', asset = ''XLM''\<rparr>"

definition threeTenths :: PaymentInstruction where
  "threeTenths = \<lparr>address = ''GC'', amount = ''0.3'', asset = ''XLM''\<rparr>"

section \<open>Observations used in the statements\<close>



definition isSubmission :: "ledger_event \<Rightarrow> bool" where
  "isSubmission ev = (case ev of TransactionSubmitted _ _ \<Rightarrow> True | _ \<Rightarrow> False)"


text \<open>What a payment result and an instruction say about the payment itself.\<close>

definition resultKey :: "PaymentResult \<Rightarrow> string \<times> string \<times> string" where
  "resultKey r = (recipient r, PaymentResult.amount r, PaymentResult.asset r)"

definition instructionKey :: "PaymentInstruction \<Rightarrow> string \<times> string \<times> string" where
  "instructionKey i = (address i, amount i, asset i)"

text \<open>
  The finite binary64 values: an integer of fewer than 54 bits times a power of two
  whose exponent lies between \<open>-1074\<close> and \<open>971\<close>.
\<close>

definition isDouble :: "rat \<Rightarrow> bool" where
  "isDouble x \<longleftrightarrow> (\<exists>n k. x = of_int n * pow2 k \<and> \<bar>n\<bar> < 2 ^ 53 \<and> - 1074 \<le> k \<and> k \<le> 971)"

text \<open>
  The exact decimal value written in the amount of an instruction; \<open>decimalAmount\<close>
  says that the amount starts with a finite decimal literal at all.
\<close>

definition amountValue :: "PaymentInstruction \<Rightarrow> rat" where
  "amountValue i =
     (case strDecimalLiteral (trimStart (amount i)) of DecimalLiteral v \<Rightarrow> v | _ \<Rightarrow> 0)"

definition decimalAmount :: "PaymentInstruction \<Rightarrow> bool" where
  "decimalAmount i =
     (case strDecimalLiteral (trimStart (amount i)) of DecimalLiteral v \<Rightarrow> True | _ \<Rightarrow> False)"

text \<open>
  What processing one batch from state \<open>st\<close> adds to the ledger interactions: the
  submission of the batch's transaction with its answer, or nothing when building the
  transaction throws.
\<close>

definition batchAttempt ::
  "StellarService \<Rightarrow> Environment \<Rightarrow> run_state \<Rightarrow> PaymentInstruction list \<Rightarrow> ledger_event list" where
  "batchAttempt svc env st batch =
     (case buildTransaction svc env batch (sequenceNumber st) of
        Inl _ \<Rightarrow> []
      | Inr transaction \<Rightarrow>
          [TransactionSubmitted transaction (serverSubmit env (events st) transaction)])"

text \<open>The state each batch of a run starts from, in the order of the batches.\<close>

fun statesBefore ::
  "StellarService \<Rightarrow> Environment \<Rightarrow> PaymentInstruction list list \<Rightarrow> run_state \<Rightarrow> run_state list" where
  "statesBefore svc env [] st = []"
| "statesBefore svc env (batch # rest) st = st # statesBefore svc env rest (processBatch svc env st batch)"

text \<open>
  The operations of a submitted transaction, and the operation that
  \<open>buildTransaction\<close> makes of one instruction.
\<close>

definition submittedOperations :: "ledger_event \<Rightarrow> Operation list" where
  "submittedOperations ev =
     (case ev of TransactionSubmitted transaction _ \<Rightarrow> operations transaction | _ \<Rightarrow> [])"

definition paymentOperation :: "PaymentInstruction \<Rightarrow> Operation" where
  "paymentOperation payment =
     Payment (address payment) (stellarAsset (parseAsset (asset payment))) (amount payment)"

section \<open>Properties of createBatches\<close>

lemma createBatches_loop_concat:
  "createBatches_loop m xs (bs, cur, ti) = (bs', cur', ti') \<Longrightarrow>
   concat (map payments bs') @ cur' = concat (map payments bs) @ cur @ xs"
proof (induction xs arbitrary: bs cur ti)
  case Nil
  then show ?case by simp
next
  case (Cons x xs)
  show ?case
  proof (cases "int (length (cur @ [x])) \<ge> m")
    case True
    with Cons.prems have
      "createBatches_loop m xs (bs @ [\<lparr>transactionIndex = ti, payments = cur @ [x]\<rparr>], [], ti + 1)
         = (bs', cur', ti')"
      by (simp add: Let_def)
    from Cons.IH [OF this] show ?thesis by simp
  next
    case False
    with Cons.prems have "createBatches_loop m xs (bs, cur @ [x], ti) = (bs', cur', ti')"
      by (simp add: Let_def)
    from Cons.IH [OF this] show ?thesis by simp
  qed
qed

lemma createBatches_loop_index:
  "createBatches_loop m xs (bs, cur, ti) = (bs', cur', ti') \<Longrightarrow>
   ti = length bs \<Longrightarrow> map transactionIndex bs = [0..<length bs] \<Longrightarrow>
   ti' = length bs' \<and> map transactionIndex bs' = [0..<length bs']"
proof (induction xs arbitrary: bs cur ti)
  case Nil
  then show ?case by auto
next
  case (Cons x xs)
  show ?case
  proof (cases "int (length (cur @ [x])) \<ge> m")
    case True
    with Cons.prems(1) have step:
      "createBatches_loop m xs (bs @ [\<lparr>transactionIndex = ti, payments = cur @ [x]\<rparr>], [], ti + 1)
         = (bs', cur', ti')"
      by (simp add: Let_def)
    show ?thesis
      by (rule Cons.IH [OF step]) (use Cons.prems(2,3) in simp_all)
  next
    case False
    with Cons.prems(1) have "createBatches_loop m xs (bs, cur @ [x], ti) = (bs', cur', ti')"
      by (simp add: Let_def)
    from Cons.IH [OF this Cons.prems(2,3)] show ?thesis .
  qed
qed

lemma createBatches_loop_size:
  "createBatches_loop m xs (bs, cur, ti) = (bs', cur', ti') \<Longrightarrow> 1 \<le> m \<Longrightarrow>
   \<forall>b \<in> set bs. int (length (payments b)) = m \<Longrightarrow> int (length cur) < m \<Longrightarrow>
   (\<forall>b \<in> set bs'. int (length (payments b)) = m) \<and> int (length cur') < m"
proof (induction xs arbitrary: bs cur ti)
  case Nil
  then show ?case by simp
next
  case (Cons x xs)
  show ?case
  proof (cases "int (length (cur @ [x])) \<ge> m")
    case True
    with Cons.prems(1) have step:
      "createBatches_loop m xs (bs @ [\<lparr>transactionIndex = ti, payments = cur @ [x]\<rparr>], [], ti + 1)
         = (bs', cur', ti')"
      by (simp add: Let_def)
    from True Cons.prems(4) have "int (length (cur @ [x])) = m" by simp
    with Cons.prems(2,3) show ?thesis
      by (intro Cons.IH [OF step]) auto
  next
    case False
    with Cons.prems(1) have step: "createBatches_loop m xs (bs, cur @ [x], ti) = (bs', cur', ti')"
      by (simp add: Let_def)
    from False show ?thesis
      by (intro Cons.IH [OF step Cons.prems(2,3)]) simp
  qed
qed

lemma length_concat_const:
  "\<forall>b \<in> set bs. length (f b) = k \<Longrightarrow> length (concat (map f bs)) = k * length bs"
  by (induction bs) auto

lemma ceiling_count:
  fixes k r m :: nat
  assumes "0 < m" "r < m"
  shows "\<lceil>(of_nat (m * k + r) :: rat) / of_nat m\<rceil> = int (if r = 0 then k else k + 1)"
proof -
  have "\<lceil>(of_nat (m * k + r) :: rat) / of_nat m\<rceil> = \<lceil>(of_int (int (m * k + r)) :: rat) / of_int (int m)\<rceil>"
    by simp
  also have "\<dots> = - (- int (m * k + r) div int m)"
    by (rule ceiling_divide_eq_div)
  also have "\<dots> = int (if r = 0 then k else k + 1)"
  proof (cases "r = 0")
    case True
    have "- (int m * int k) div int m = - int k"
      using assms(1) by (metis mult_minus_right nonzero_mult_div_cancel_left of_nat_0_less_iff less_irrefl)
    with True show ?thesis by simp
  next
    case False
    have "- int (m * k + r) = int m * (- int k - 1) + (int m - int r)"
      by (simp add: algebra_simps)
    moreover have "0 \<le> int m - int r" "int m - int r < int m"
      using assms False by simp_all
    ultimately have "- int (m * k + r) div int m = - int k - 1"
      by (metis add.commute div_mult_self2 div_pos_pos_trivial add.right_neutral
          assms(1) of_nat_0_less_iff less_irrefl)
    with False show ?thesis by simp
  qed
  finally show ?thesis .
qed


lemma createBatches_positive_bound:
  assumes "1 \<le> m"
  shows "concat (map payments (createBatches xs m)) = xs"
    and "map transactionIndex (createBatches xs m) = [0..<length (createBatches xs m)]"
    and "\<forall>b \<in> set (createBatches xs m). 1 \<le> length (payments b) \<and> int (length (payments b)) \<le> m"
    and "int (length (createBatches xs m)) = \<lceil>(of_nat (length xs) :: rat) / of_int m\<rceil>"
proof -
  obtain bs cur ti where loop: "createBatches_loop m xs ([], [], 0) = (bs, cur, ti)"
    by (metis prod_cases3)
  have cat: "concat (map payments bs) @ cur = xs"
    using createBatches_loop_concat [OF loop] by simp
  have idx: "ti = length bs" "map transactionIndex bs = [0..<length bs]"
    using createBatches_loop_index [OF loop] by simp_all
  have sz: "\<forall>b \<in> set bs. int (length (payments b)) = m" "int (length cur) < m"
    using createBatches_loop_size [OF loop assms] assms by simp_all
  have res: "createBatches xs m =
      (if length cur > 0 then bs @ [\<lparr>transactionIndex = ti, payments = cur\<rparr>] else bs)"
    by (simp add: createBatches_def loop)
  show "concat (map payments (createBatches xs m)) = xs"
    using cat by (auto simp: res)
  show "map transactionIndex (createBatches xs m) = [0..<length (createBatches xs m)]"
    using idx by (simp add: res)
  show "\<forall>b \<in> set (createBatches xs m). 1 \<le> length (payments b) \<and> int (length (payments b)) \<le> m"
  proof
    fix b assume "b \<in> set (createBatches xs m)"
    then consider "b \<in> set bs" | "b = \<lparr>transactionIndex = ti, payments = cur\<rparr>" "cur \<noteq> []"
      by (auto simp: res split: if_splits)
    then show "1 \<le> length (payments b) \<and> int (length (payments b)) \<le> m"
    proof cases
      case 1
      with sz(1) have "int (length (payments b)) = m" by blast
      with assms show ?thesis by linarith
    next
      case 2
      then have "1 \<le> length cur" by (cases cur) simp_all
      with 2 sz(2) show ?thesis by simp
    qed
  qed
  have "\<forall>b \<in> set bs. length (payments b) = nat m"
    using sz(1) by auto
  then have "length (concat (map payments bs)) = nat m * length bs"
    by (rule length_concat_const)
  then have n: "length xs = nat m * length bs + length cur"
    using cat by (metis length_append)
  have "\<lceil>(of_nat (length xs) :: rat) / of_int m\<rceil>
        = \<lceil>(of_nat (nat m * length bs + length cur) :: rat) / of_nat (nat m)\<rceil>"
    using assms by (simp add: n)
  also have "\<dots> = int (if length cur = 0 then length bs else length bs + 1)"
    using assms sz(2) by (intro ceiling_count) simp_all
  also have "\<dots> = int (length (createBatches xs m))"
    by (simp add: res)
  finally show "int (length (createBatches xs m)) = \<lceil>(of_nat (length xs) :: rat) / of_int m\<rceil>"
    by simp
qed

lemma createBatches_loop_saturated:
  "m \<le> 0 \<Longrightarrow>
   createBatches_loop m xs (bs, [], ti) =
     (bs @ map (\<lambda>(i, x). \<lparr>transactionIndex = ti + i, payments = [x]\<rparr>) (enumerate 0 xs), [], ti + length xs)"
proof (induction xs arbitrary: bs ti)
  case Nil
  then show ?case by simp
next
  case (Cons x xs)
  have "map (\<lambda>(i, x). \<lparr>transactionIndex = ti + i, payments = [x]\<rparr>) (enumerate (Suc 0) xs)
      = map (\<lambda>(i, x). \<lparr>transactionIndex = Suc ti + i, payments = [x]\<rparr>) (enumerate 0 xs)"
    by (simp add: enumerate_eq_zip map_zip_map2 [symmetric] del: upt_Suc)
       (auto simp add: map_Suc_upt [symmetric] zip_map1 simp del: upt_Suc)
  with Cons show ?case by simp
qed


text \<open>
  Claim C1, as the code has it: for every bound \<open>m \<ge> 1\<close> and every instruction
  list of length \<open>n\<close>, \<open>createBatches\<close> returns \<open>ceil(n/m)\<close> batches (none for
  the empty list), every batch holds at least one and at most \<open>m\<close> payments, the
  payments of the batches concatenated in order are the input list, and the
  \<open>transactionIndex\<close> fields are \<open>0, 1, 2, ...\<close> in order.
\<close>

theorem createBatches_partitions:
  assumes "1 \<le> m"
  shows "int (length (createBatches xs m)) = \<lceil>(of_nat (length xs) :: rat) / of_int m\<rceil>
       \<and> (xs = [] \<longrightarrow> createBatches xs m = [])
       \<and> (\<forall>b \<in> set (createBatches xs m).
             1 \<le> length (payments b) \<and> int (length (payments b)) \<le> m)
       \<and> concat (map payments (createBatches xs m)) = xs
       \<and> map transactionIndex (createBatches xs m) = [0..<length (createBatches xs m)]"
proof -
  have "xs = [] \<longrightarrow> createBatches xs m = []"
    by (simp add: createBatches_def)
  with createBatches_positive_bound [OF assms, of xs] show ?thesis
    by blast
qed

theorem createBatches_partitions_witness:
  "(1::int) \<le> 2
   \<and> int (length (createBatches samplePayments 2)) = \<lceil>(of_nat (length samplePayments) :: rat) / of_int 2\<rceil>
   \<and> length (createBatches samplePayments 2) = 2
   \<and> concat (map payments (createBatches samplePayments 2)) = samplePayments
   \<and> map transactionIndex (createBatches samplePayments 2) = [0, 1]
   \<and> map (\<lambda>b. length (payments b)) (createBatches samplePayments 2) = [2, 1]"
proof -
  have ev: "createBatches samplePayments 2 =
      [\<lparr>transactionIndex = 0, payments = take 2 samplePayments\<rparr>,
       \<lparr>transactionIndex = 1, payments = drop 2 samplePayments\<rparr>]"
    by (simp add: createBatches_def samplePayments_def)
  have len: "length samplePayments = 3"
    by (simp add: samplePayments_def)
  show ?thesis
    using createBatches_partitions [of 2 samplePayments]
    by (simp add: ev len)
qed

text \<open>
  Claim C1 as stated covers the bound 0: there a list of one instruction gives one batch
  holding one payment, which is more than the bound allows.
\<close>

theorem createBatches_zero_bound_counterexample:
  "createBatches [\<lparr>address = ''GA'', amount = ''1'', asset = ''XLM''\<rparr>] 0 =
     [\<lparr>transactionIndex = 0,
       payments = [\<lparr>address = ''GA'', amount = ''1'', asset = ''XLM''\<rparr>]\<rparr>]
   \<and> \<not> int (length (payments
           (hd (createBatches [\<lparr>address = ''GA'', amount = ''1'', asset = ''XLM''\<rparr>] 0)))) \<le> 0"
  by (simp add: createBatches_def)

text \<open>
  Claim C9: for every bound \<open>m \<le> 0\<close> and every instruction list of length \<open>n\<close>,
  \<open>createBatches\<close> returns \<open>n\<close> batches, the \<open>i\<close>-th one holding exactly the
  \<open>i\<close>-th instruction: the batch size saturates at one.
\<close>

theorem createBatches_saturates:
  assumes "m \<le> 0"
  shows "createBatches xs m =
           map (\<lambda>(i, x). \<lparr>transactionIndex = i, payments = [x]\<rparr>) (enumerate 0 xs)
       \<and> length (createBatches xs m) = length xs
       \<and> (\<forall>b \<in> set (createBatches xs m). length (payments b) = 1)"
proof -
  have eq: "createBatches xs m =
           map (\<lambda>(i, x). \<lparr>transactionIndex = i, payments = [x]\<rparr>) (enumerate 0 xs)"
    using createBatches_loop_saturated [OF assms, of xs "[]" 0]
    by (simp add: createBatches_def)
  have "length (createBatches xs m) = length xs"
    by (simp add: eq)
  moreover have "\<forall>b \<in> set (createBatches xs m). length (payments b) = 1"
    by (auto simp: eq)
  ultimately show ?thesis
    using eq by blast
qed

theorem createBatches_saturates_witness:
  "(-3::int) \<le> 0
   \<and> length (createBatches samplePayments (-3)) = 3
   \<and> map (\<lambda>b. length (payments b)) (createBatches samplePayments (-3)) = [1, 1, 1]
   \<and> map transactionIndex (createBatches samplePayments (-3)) = [0, 1, 2]"
proof -
  have len: "length samplePayments = 3"
    by (simp add: samplePayments_def)
  have ev: "createBatches samplePayments (-3) =
      map (\<lambda>(i, x). \<lparr>transactionIndex = i, payments = [x]\<rparr>) (enumerate 0 samplePayments)"
    using createBatches_saturates [of "-3" samplePayments] by simp
  show ?thesis
    by (simp add: ev) (simp add: samplePayments_def)
qed

section \<open>Properties of parseAsset and parseCSV\<close>

lemma split_not_Nil: "split sep s \<noteq> []"
  by (induction s) (auto split: list.splits)

lemma split_no_sep: "sep \<notin> set s \<Longrightarrow> split sep s = [s]"
  by (induction s) auto

lemma split_unfold:
  "split sep s =
     takeWhile (\<lambda>x. x \<noteq> sep) s #
       (if sep \<in> set s then split sep (tl (dropWhile (\<lambda>x. x \<noteq> sep) s)) else [])"
proof (induction s)
  case Nil
  then show ?case by simp
next
  case (Cons x s)
  show ?case
  proof (cases "x = sep")
    case True
    then show ?thesis by simp
  next
    case False
    then show ?thesis by (simp add: Cons.IH)
  qed
qed

lemma split_first_two:
  assumes "sep \<in> set s"
  shows "\<exists>rest. split sep s =
           takeWhile (\<lambda>x. x \<noteq> sep) s #
           takeWhile (\<lambda>x. x \<noteq> sep) (tl (dropWhile (\<lambda>x. x \<noteq> sep) s)) # rest"
proof -
  let ?t = "tl (dropWhile (\<lambda>x. x \<noteq> sep) s)"
  have "split sep s = takeWhile (\<lambda>x. x \<noteq> sep) s # split sep ?t"
    using assms by (subst split_unfold) simp
  moreover have "\<exists>rest. split sep ?t = takeWhile (\<lambda>x. x \<noteq> sep) ?t # rest"
    by (subst split_unfold) simp
  ultimately show ?thesis by auto
qed

text \<open>
  Claim C8, as the code has it: \<open>parseAsset\<close> returns the issuer \<open>null\<close> exactly for
  the string \<open>XLM\<close>, and \<open>buildTransaction\<close> takes exactly that case as the native
  asset. Every other string gives a non-native asset, handed to the SDK with its code
  and issuer as parsed: when the string has a colon, the code is the text before the
  first colon and the issuer is the text after it, up to the next colon or the end;
  when it has none, the code is the whole string and the issuer is undefined. The code
  before the first colon may itself be \<open>XLM\<close>.
\<close>

theorem parseAsset_native_iff:
  "(issuer (parseAsset s) = Null \<longleftrightarrow> s = ''XLM'')
   \<and> (stellarAsset (parseAsset s) = Native \<longleftrightarrow> s = ''XLM'')
   \<and> (s \<noteq> ''XLM'' \<and> CHR '':'' \<in> set s \<longrightarrow>
        (\<exists>i. issuer (parseAsset s) = Issuer i) \<and> code (parseAsset s) = takeWhile (\<lambda>x. x \<noteq> CHR '':'') s)
   \<and> (s \<noteq> ''XLM'' \<and> CHR '':'' \<notin> set s \<longrightarrow> parseAsset s = \<lparr>code = s, issuer = Undefined\<rparr>)
   \<and> (s \<noteq> ''XLM'' \<and> CHR '':'' \<in> set s \<longrightarrow>
        parseAsset s =
          \<lparr>code = takeWhile (\<lambda>x. x \<noteq> CHR '':'') s,
           issuer = Issuer (takeWhile (\<lambda>x. x \<noteq> CHR '':'')
                              (tl (dropWhile (\<lambda>x. x \<noteq> CHR '':'') s)))\<rparr>)
   \<and> (s \<noteq> ''XLM'' \<longrightarrow>
        stellarAsset (parseAsset s) = NewStellarAsset (code (parseAsset s)) (issuer (parseAsset s)))
   \<and> (s = ''XLM'' \<longrightarrow> parseAsset s = \<lparr>code = ''XLM'', issuer = Null\<rparr>)"
proof -
  have g: "parseAsset s = \<lparr>code = ''XLM'', issuer = Null\<rparr>" if "s = ''XLM''"
    using that by (simp add: parseAsset_def)
  have a: "issuer (parseAsset s) = Null \<longleftrightarrow> s = ''XLM''"
    by (auto simp: parseAsset_def split: list.splits)
  have b: "stellarAsset (parseAsset s) = Native \<longleftrightarrow> s = ''XLM''"
    using a by (simp add: stellarAsset_def)
  have e: "parseAsset s =
          \<lparr>code = takeWhile (\<lambda>x. x \<noteq> CHR '':'') s,
           issuer = Issuer (takeWhile (\<lambda>x. x \<noteq> CHR '':'')
                              (tl (dropWhile (\<lambda>x. x \<noteq> CHR '':'') s)))\<rparr>"
    if "s \<noteq> ''XLM''" "CHR '':'' \<in> set s"
    using split_first_two [OF that(2)] that(1) by (auto simp: parseAsset_def)
  have c: "(\<exists>i. issuer (parseAsset s) = Issuer i) \<and> code (parseAsset s) = takeWhile (\<lambda>x. x \<noteq> CHR '':'') s"
    if "s \<noteq> ''XLM''" "CHR '':'' \<in> set s"
    using e [OF that] by simp
  have d: "parseAsset s = \<lparr>code = s, issuer = Undefined\<rparr>" if "s \<noteq> ''XLM''" "CHR '':'' \<notin> set s"
    using split_no_sep [OF that(2)] that(1) by (simp add: parseAsset_def)
  have f: "stellarAsset (parseAsset s) = NewStellarAsset (code (parseAsset s)) (issuer (parseAsset s))"
    if "s \<noteq> ''XLM''"
    using a that by (simp add: stellarAsset_def)
  from a b c d e f g show ?thesis by blast
qed

theorem parseAsset_native_iff_witness:
  "parseAsset ''XLM'' = \<lparr>code = ''XLM'', issuer = Null\<rparr>
   \<and> stellarAsset (parseAsset ''XLM'') = Native
   \<and> parseAsset ''USDC:GISSUER'' = \<lparr>code = ''USDC'', issuer = Issuer ''GISSUER''\<rparr>
   \<and> stellarAsset (parseAsset ''USDC:GISSUER'') = NewStellarAsset ''USDC'' (Issuer ''GISSUER'')
   \<and> parseAsset ''A:B:C'' = \<lparr>code = ''A'', issuer = Issuer ''B''\<rparr>
   \<and> parseAsset ''USDC:'' = \<lparr>code = ''USDC'', issuer = Issuer []\<rparr>
   \<and> issuer (parseAsset ''EUR'') = Undefined"
proof -
  have "parseAsset ''A:B:C'' = \<lparr>code = ''A'', issuer = Issuer ''B''\<rparr>"
    using parseAsset_native_iff [of "''A:B:C''"] by simp
  moreover have "parseAsset ''USDC:GISSUER'' = \<lparr>code = ''USDC'', issuer = Issuer ''GISSUER''\<rparr>"
    using parseAsset_native_iff [of "''USDC:GISSUER''"] by simp
  moreover have "parseAsset ''USDC:'' = \<lparr>code = ''USDC'', issuer = Issuer []\<rparr>"
    using parseAsset_native_iff [of "''USDC:''"] by simp
  ultimately show ?thesis
    using parseAsset_native_iff [of "''XLM''"] parseAsset_native_iff [of "''EUR''"]
    by (simp add: stellarAsset_def)
qed

text \<open>
  Claim C8 as stated fails both ways: \<open>USDC\<close> parses to a non-native asset that carries
  no issuer, and \<open>XLM:GISSUER\<close> parses to an asset of code \<open>XLM\<close> that carries one.
\<close>

theorem parseAsset_invariant_counterexample:
  "parseAsset ''USDC'' = \<lparr>code = ''USDC'', issuer = Undefined\<rparr>
   \<and> stellarAsset (parseAsset ''USDC'') = NewStellarAsset ''USDC'' Undefined
   \<and> parseAsset ''XLM:GISSUER'' = \<lparr>code = ''XLM'', issuer = Issuer ''GISSUER''\<rparr>"
  by (simp add: parseAsset_def stellarAsset_def)

text \<open>
  Claim C10: \<open>parseCSV\<close> never returns an empty instruction list. On every input it
  either fails with one of its four errors or returns at least one instruction.
\<close>

theorem parseCSV_never_empty:
  "parseCSV content \<noteq> Inr []
   \<and> ((\<exists>e. parseCSV content = Inl e) \<or> (\<exists>r. parseCSV content = Inr r \<and> r \<noteq> []))"
proof (cases "parseCSV content")
  case (Inl e)
  then show ?thesis by simp
next
  case (Inr r)
  then have "r \<noteq> []"
    by (auto simp: parseCSV_def Let_def split: if_splits sum.splits)
  with Inr show ?thesis by simp
qed

theorem parseCSV_never_empty_witness:
  "parseCSV (''address,amount,asset'' @ [CHR 0x0A] @ ''GA,100,XLM'') =
     Inr [\<lparr>address = ''GA'', amount = ''100'', asset = ''XLM''\<rparr>]
   \<and> parseCSV (''address,amount,asset'' @ [CHR 0x0A]) = Inl NoHeaderAndDataRow
   \<and> parseCSV (''address,amount'' @ [CHR 0x0A] @ ''GA,100'') = Inl MissingColumns
   \<and> parseCSV (''address,amount,asset'' @ [CHR 0x0A] @ ''GA,100'') = Inl (InsufficientColumns 2)
   \<and> parseCSV (''address,amount,asset'' @ [CHR 0x0A] @ '' '' @ [CHR 0x0A] @ ''GA,100,XLM'') =
     Inr [\<lparr>address = ''GA'', amount = ''100'', asset = ''XLM''\<rparr>]"
  using parseCSV_never_empty [of "''address,amount,asset'' @ [CHR 0x0A] @ ''GA,100,XLM''"]
  by (simp add: parseCSV_def trim_def isWhiteSpace_def toLowerCase_def lowerChar_def Let_def)

section \<open>Numbers: evaluation rules and exactness of rounding\<close>

text \<open>Rules that let the simplifier evaluate the number functions on numerals.\<close>

lemma floor_rat_numeral: "\<lfloor>numeral a / numeral b :: rat\<rfloor> = numeral a div numeral b"
  by (metis floor_divide_of_int_eq of_int_numeral)
lemma floor_rat_one_numeral: "\<lfloor>1 / numeral b :: rat\<rfloor> = 1 div numeral b"
  by (metis floor_divide_of_int_eq of_int_1 of_int_numeral)
lemma ceiling_rat_numeral: "\<lceil>numeral a / numeral b :: rat\<rceil> = - (- numeral a div numeral b)"
  by (metis ceiling_divide_eq_div of_int_numeral)
lemma ceiling_rat_one_numeral: "\<lceil>1 / numeral b :: rat\<rceil> = - (- 1 div numeral b)"
  by (metis ceiling_divide_eq_div of_int_1 of_int_numeral)
lemma bitlen_numeral: "bitlen (numeral n) = bitlen (numeral n div 2) + 1"
  by (subst compute_bitlen) simp
lemma bitlen_one: "bitlen 1 = 1"
  by (subst compute_bitlen) simp
lemmas number_eval = roundToDouble_def binExponent_def bitlen_numeral bitlen_one pow2_def roundTiesToEven_def
  Let_def floor_rat_numeral floor_rat_one_numeral ceiling_rat_numeral ceiling_rat_one_numeral
lemmas literal_eval = parseFloat_def trimStart_def isWhiteSpace_def strDecimalLiteral_def
  strUnsignedDecimalLiteral_def isDigit_def
  digitsValue_def digitValue_def exponentPart_def pow10_def

text \<open>Powers of two and the binary exponent.\<close>

lemma pow2_power_int: "pow2 e = power_int 2 e"
  by (simp add: pow2_def power_int_def inverse_eq_divide power_one_over)

lemma pow2_pos: "0 < pow2 e"
  by (simp add: pow2_power_int)

lemma pow2_add: "pow2 (a + b) = pow2 a * pow2 b"
  by (simp add: pow2_power_int power_int_add)

lemma pow2_less_iff: "pow2 a < pow2 b \<longleftrightarrow> a < b"
proof
  assume "pow2 a < pow2 b"
  show "a < b"
  proof (rule ccontr)
    assume "\<not> a < b"
    then have "b \<le> a" by simp
    then have "pow2 b \<le> pow2 a"
      unfolding pow2_power_int by (intro power_int_increasing) simp_all
    with \<open>pow2 a < pow2 b\<close> show False by simp
  qed
next
  assume "a < b"
  then show "pow2 a < pow2 b"
    unfolding pow2_power_int by (intro power_int_strict_increasing) simp_all
qed

lemma pow2_nonneg_of_int: "0 \<le> e \<Longrightarrow> pow2 e = of_int (2 ^ nat e)"
  by (simp add: pow2_def)

lemma pow2_inverse: "pow2 (- e) * pow2 e = 1"
  using pow2_add [of "- e" e] by (simp add: pow2_def)

lemma bitlen_pos: "0 < k \<Longrightarrow> 1 \<le> bitlen k"
proof -
  assume "0 < k"
  then have "bitlen k \<noteq> 0" by (simp add: bitlen_eq_zero_iff)
  with bitlen_nonneg [of k] show ?thesis by linarith
qed

lemma pow2_bitlen_le: "0 < k \<Longrightarrow> pow2 (bitlen k - 1) \<le> of_int k"
proof -
  assume k: "0 < k"
  from bitlen_bounds [OF k] have "2 ^ nat (bitlen k - 1) \<le> k" by blast
  then have "(of_int (2 ^ nat (bitlen k - 1)) :: rat) \<le> of_int k"
    by (simp only: of_int_le_iff)
  with bitlen_pos [OF k] show ?thesis
    by (simp only: pow2_nonneg_of_int)
qed

lemma pow2_bitlen_gt: "0 < k \<Longrightarrow> of_int k + 1 \<le> pow2 (bitlen k)"
proof -
  assume k: "0 < k"
  from bitlen_bounds [OF k] have "k < 2 ^ nat (bitlen k)" by blast
  then have "k + 1 \<le> 2 ^ nat (bitlen k)" by simp
  then have "(of_int (k + 1) :: rat) \<le> of_int (2 ^ nat (bitlen k))"
    by (simp only: of_int_le_iff)
  with bitlen_nonneg [of k] show ?thesis
    by (simp only: pow2_nonneg_of_int of_int_add of_int_1)
qed


lemma binExponent_lower:
  assumes "0 < x"
  shows "pow2 (binExponent x) \<le> x"
proof (cases "1 \<le> x")
  case True
  then have fl: "0 < \<lfloor>x\<rfloor>" by linarith
  have "pow2 (bitlen \<lfloor>x\<rfloor> - 1) \<le> of_int \<lfloor>x\<rfloor>"
    by (rule pow2_bitlen_le [OF fl])
  also have "\<dots> \<le> x" by simp
  finally show ?thesis using True by (simp add: binExponent_def)
next
  case False
  define c where "c = \<lceil>1 / x\<rceil>"
  from False assms have "1 < 1 / x" by simp
  then have c2: "0 < c - 1" unfolding c_def by linarith
  have "1 / x \<le> of_int c" unfolding c_def by simp
  also have "\<dots> = of_int (c - 1) + 1" by simp
  also have "\<dots> \<le> pow2 (bitlen (c - 1))"
    by (rule pow2_bitlen_gt [OF c2])
  finally have "1 \<le> pow2 (bitlen (c - 1)) * x"
    using assms by (simp add: field_simps)
  then have "pow2 (- bitlen (c - 1)) * 1 \<le> pow2 (- bitlen (c - 1)) * (pow2 (bitlen (c - 1)) * x)"
    using pow2_pos [of "- bitlen (c - 1)"] by (intro mult_left_mono) simp_all
  also have "\<dots> = (pow2 (- bitlen (c - 1)) * pow2 (bitlen (c - 1))) * x"
    by (simp only: mult.assoc)
  also have "\<dots> = x"
    by (simp only: pow2_inverse mult_1)
  finally show ?thesis using False by (simp add: binExponent_def c_def)
qed

lemma binExponent_upper:
  assumes "0 < x"
  shows "x < pow2 (binExponent x + 1)"
proof (cases "1 \<le> x")
  case True
  then have fl: "0 < \<lfloor>x\<rfloor>" by linarith
  have "x < of_int \<lfloor>x\<rfloor> + 1" by linarith
  also have "\<dots> \<le> pow2 (bitlen \<lfloor>x\<rfloor>)"
    by (rule pow2_bitlen_gt [OF fl])
  finally show ?thesis using True by (simp add: binExponent_def)
next
  case False
  define c where "c = \<lceil>1 / x\<rceil>"
  define b where "b = bitlen (c - 1)"
  from False assms have "1 < 1 / x" by simp
  then have c2: "0 < c - 1" unfolding c_def by linarith
  have "pow2 (b - 1) \<le> of_int (c - 1)"
    unfolding b_def by (rule pow2_bitlen_le [OF c2])
  also have "(of_int (c - 1) :: rat) < 1 / x"
    unfolding c_def by linarith
  finally have "pow2 (b - 1) * x < 1"
    using assms by (simp add: field_simps)
  then have "pow2 (- (b - 1)) * (pow2 (b - 1) * x) < pow2 (- (b - 1)) * 1"
    using pow2_pos [of "- (b - 1)"] by (intro mult_strict_left_mono) simp_all
  moreover have "pow2 (- (b - 1)) * (pow2 (b - 1) * x) = (pow2 (- (b - 1)) * pow2 (b - 1)) * x"
    by (simp only: mult.assoc)
  ultimately have "x < pow2 (- (b - 1))"
    by (simp only: pow2_inverse mult_1 mult_1_right)
  moreover have "binExponent x + 1 = - (b - 1)"
    using False by (simp add: binExponent_def c_def b_def)
  ultimately show ?thesis by (simp only:)
qed

lemma roundTiesToEven_of_int: "roundTiesToEven (of_int m) = m"
  by (simp add: roundTiesToEven_def)


lemma roundToDouble_exact:
  assumes "isDouble x"
  shows "roundToDouble x = Fin x"
proof (cases "x = 0")
  case True
  then show ?thesis by (simp add: roundToDouble_def)
next
  case False
  from assms obtain n k where x: "x = of_int n * pow2 k"
    and n: "\<bar>n\<bar> < 2 ^ 53" and k: "- 1074 \<le> k" "k \<le> 971"
    unfolding isDouble_def by blast
  define a where "a = \<bar>x\<bar>"
  define e where "e = max (binExponent a - 52) (- 1074)"
  have a: "a = of_int \<bar>n\<bar> * pow2 k"
    using pow2_pos [of k] by (simp add: a_def x abs_mult)
  have apos: "0 < a"
    using False by (simp add: a_def)
  have "(of_int \<bar>n\<bar> :: rat) < of_int (2 ^ 53)"
    using n by (simp only: of_int_less_iff)
  then have "a < of_int (2 ^ 53) * pow2 k"
    unfolding a using pow2_pos [of k] by (intro mult_strict_right_mono)
  also have "(of_int (2 ^ 53) :: rat) = pow2 53"
    by (simp add: pow2_def)
  finally have ub: "a < pow2 (53 + k)"
    by (simp only: pow2_add)
  have "pow2 (binExponent a) \<le> a"
    by (rule binExponent_lower [OF apos])
  with ub have "pow2 (binExponent a) < pow2 (53 + k)"
    by simp
  then have "binExponent a < 53 + k"
    by (simp only: pow2_less_iff)
  with k(1) have ek: "e \<le> k"
    by (simp add: e_def)
  have "pow2 k = pow2 ((k - e) + e)" by simp
  also have "\<dots> = pow2 (k - e) * pow2 e"
    by (simp only: pow2_add)
  also have "pow2 (k - e) = of_int (2 ^ nat (k - e))"
    using ek by (intro pow2_nonneg_of_int) simp
  finally have pk: "pow2 k = of_int (2 ^ nat (k - e)) * pow2 e" .
  have ne: "pow2 e \<noteq> 0"
    using pow2_pos [of e] by simp
  have "a / pow2 e = of_int (\<bar>n\<bar> * 2 ^ nat (k - e))"
    using ne by (simp add: a pk del: of_int_power)
  then have rnd: "roundTiesToEven (a / pow2 e) = \<bar>n\<bar> * 2 ^ nat (k - e)"
    by (simp only: roundTiesToEven_of_int)
  have r: "of_int (roundTiesToEven (a / pow2 e)) * pow2 e = a"
    unfolding rnd by (simp add: a pk del: of_int_power)
  have "53 + k \<le> 1024" using k(2) by simp
  then have "pow2 (53 + k) \<le> pow2 1024"
    unfolding pow2_power_int by (intro power_int_increasing) simp_all
  with ub have "a < pow2 1024" by simp
  then have small: "\<not> 2 ^ 1024 \<le> a"
    by (simp add: pow2_def)
  have "roundToDouble x = Fin (if 0 < x then a else - a)"
    using False small unfolding roundToDouble_def Let_def a_def [symmetric] e_def [symmetric] r
    by simp
  also have "(if 0 < x then a else - a) = x"
    by (simp add: a_def)
  finally show ?thesis .
qed

section \<open>Properties of submitBatch\<close>




lemma processBatch_keys:
  "map resultKey (results (processBatch svc env st batch)) =
     map resultKey (results st) @ map instructionKey batch"
  by (simp add: processBatch_def submitTransaction_def Let_def resultKey_def instructionKey_def
        successResult_def failedResult_def comp_def
           split: sum.splits server_reply.splits)

lemma processBatches_keys:
  "map resultKey (results (processBatches svc env batches st)) =
     map resultKey (results st) @ map instructionKey (concat batches)"
  by (induction batches arbitrary: st) (simp_all add: processBatch_keys)

lemma processBatch_counts:
  "successCount (processBatch svc env st batch) + failCount (processBatch svc env st batch)
     = successCount st + failCount st + length batch
   \<and> (successCount st = length (filter (\<lambda>r. status r = Success) (results st)) \<longrightarrow>
      successCount (processBatch svc env st batch)
        = length (filter (\<lambda>r. status r = Success) (results (processBatch svc env st batch))))
   \<and> (failCount st = length (filter (\<lambda>r. status r = Failed) (results st)) \<longrightarrow>
      failCount (processBatch svc env st batch)
        = length (filter (\<lambda>r. status r = Failed) (results (processBatch svc env st batch))))"
  by (simp add: processBatch_def submitTransaction_def Let_def
        successResult_def failedResult_def comp_def
           split: sum.splits server_reply.splits)

lemma processBatches_counts:
  "successCount st = length (filter (\<lambda>r. status r = Success) (results st)) \<Longrightarrow>
   failCount st = length (filter (\<lambda>r. status r = Failed) (results st)) \<Longrightarrow>
   successCount (processBatches svc env batches st)
     = length (filter (\<lambda>r. status r = Success) (results (processBatches svc env batches st)))
   \<and> failCount (processBatches svc env batches st)
     = length (filter (\<lambda>r. status r = Failed) (results (processBatches svc env batches st)))"
proof (induction batches arbitrary: st)
  case Nil
  then show ?case by simp
next
  case (Cons b bs)
  show ?case
    using Cons.IH [of "processBatch svc env st b"] processBatch_counts [of svc env st b] Cons.prems
    by simp
qed

lemma createPaymentBatches_loop_concat:
  "createPaymentBatches_loop validate m xs (bs, cur) = Inr (bs', cur') \<Longrightarrow>
   concat bs' @ cur' = concat bs @ cur @ xs"
proof (induction xs arbitrary: bs cur)
  case Nil
  then show ?case by simp
next
  case (Cons x xs)
  then show ?case
    by (fastforce simp: Let_def split: if_splits)
qed

lemma createPaymentBatches_concat:
  "createPaymentBatches svc validate xs = Inr batches \<Longrightarrow> concat batches = xs"
  by (auto simp: createPaymentBatches_def split: sum.splits if_splits
           dest: createPaymentBatches_loop_concat)

lemma createPaymentBatches_loop_valid:
  "\<forall>i \<in> set xs. valid (validate i) \<Longrightarrow> \<exists>r. createPaymentBatches_loop validate m xs st = Inr r"
proof (induction xs arbitrary: st)
  case Nil
  then show ?case by simp
next
  case (Cons x xs)
  obtain bs cur where st: "st = (bs, cur)" by (cases st)
  from Cons show ?case
    by (simp add: st Let_def)
qed

lemma createPaymentBatches_valid:
  "\<forall>i \<in> set xs. valid (validate i) \<Longrightarrow> \<exists>batches. createPaymentBatches svc validate xs = Inr batches"
  using createPaymentBatches_loop_valid [of xs validate "maxOperationsPerTransaction svc" "([], [])"]
  by (auto simp: createPaymentBatches_def)

lemma createPaymentBatches_loop_first_invalid:
  "\<forall>i \<in> set pre. valid (validate i) \<Longrightarrow> \<not> valid (validate bad) \<Longrightarrow>
   createPaymentBatches_loop validate m (pre @ bad # rest) st =
     Inl (InvalidPaymentInstruction (address bad) (ValidationResult.error (validate bad)))"
proof (induction pre arbitrary: st)
  case Nil
  obtain bs cur where st: "st = (bs, cur)" by (cases st)
  from Nil show ?case by (simp add: st)
next
  case (Cons x xs)
  obtain bs cur where st: "st = (bs, cur)" by (cases st)
  from Cons show ?case
    by (simp add: st Let_def)
qed

lemma first_invalid_split:
  "\<exists>i \<in> set xs. \<not> P i \<Longrightarrow> \<exists>pre bad rest. xs = pre @ bad # rest \<and> (\<forall>i \<in> set pre. P i) \<and> \<not> P bad"
proof (induction xs)
  case Nil
  then show ?case by simp
next
  case (Cons x xs)
  show ?case
  proof (cases "P x")
    case False
    then have "x # xs = [] @ x # xs \<and> (\<forall>i \<in> set []. P i) \<and> \<not> P x" by simp
    then show ?thesis by blast
  next
    case True
    with Cons.prems have "\<exists>i \<in> set xs. \<not> P i" by simp
    from Cons.IH [OF this] obtain pre bad rest where
      "xs = pre @ bad # rest" "\<forall>i \<in> set pre. P i" "\<not> P bad" by blast
    with True have "x # xs = (x # pre) @ bad # rest \<and> (\<forall>i \<in> set (x # pre). P i) \<and> \<not> P bad"
      by simp
    then show ?thesis by blast
  qed
qed

lemma submitBatch_load_failed:
  "loadAccount env (publicKey svc) = Inl e \<Longrightarrow>
   submitBatch svc validate env t instructions =
     ([AccountLoaded (publicKey svc) (Inl e)], Inl (LoadAccountFailed e))"
  by (simp add: submitBatch_def)

lemma submitBatch_invalid:
  "loadAccount env (publicKey svc) = Inr s \<Longrightarrow>
   createPaymentBatches svc validate instructions = Inl e \<Longrightarrow>
   submitBatch svc validate env t instructions = ([AccountLoaded (publicKey svc) (Inr s)], Inl e)"
  by (simp add: submitBatch_def)

lemma submitBatch_processed:
  "loadAccount env (publicKey svc) = Inr s \<Longrightarrow>
   createPaymentBatches svc validate instructions = Inr batches \<Longrightarrow>
   st = processBatches svc env batches
          \<lparr>results = [], successCount = 0, failCount = 0, sequenceNumber = s,
           events = [AccountLoaded (publicKey svc) (Inr s)]\<rparr> \<Longrightarrow>
   submitBatch svc validate env t instructions =
     (events st,
      Inr \<lparr>totalRecipients = length instructions,
           totalAmount = foldl (\<lambda>acc inst. numberAdd acc (parseFloat (amount inst))) (Fin 0) instructions,
           totalTransactions = length batches,
           network = serviceNetwork svc,
           timestamp = t,
           results = results st,
           summary = \<lparr>successful = successCount st, failed = failCount st\<rparr>\<rparr>)"
  by (simp add: submitBatch_def Let_def)

lemma status_partition:
  "length (filter (\<lambda>p. status p = Success) rs) + length (filter (\<lambda>p. status p = Failed) rs)
     = length rs"
proof (induction rs)
  case Nil
  then show ?case by simp
next
  case (Cons p rs)
  then show ?case by (cases "status p") simp_all
qed


lemmas service_eval = submitBatch_def createPaymentBatches_def processBatch_def buildTransaction_def
  submitTransaction_def successResult_def failedResult_def errorMessage_def parseAsset_def
  stellarAsset_def sampleService_def sampleEnvironment_def sampleValidate_def Let_def



lemma processBatch_events:
  "events (processBatch svc env st batch) = events st @ batchAttempt svc env st batch"
  by (simp add: processBatch_def batchAttempt_def submitTransaction_def Let_def
           split: sum.splits server_reply.splits)

lemma processBatches_events:
  "events (processBatches svc env batches st) =
     events st @ concat (map (\<lambda>(s, b). batchAttempt svc env s b)
                           (zip (statesBefore svc env batches st) batches))"
  by (induction batches arbitrary: st) (simp_all add: processBatch_events)

lemma batchAttempt_built:
  assumes "\<forall>tx. sdkBuild env tx = None"
  shows "length (filter isSubmission (batchAttempt svc env st batch)) = 1"
    and "concat (map submittedOperations (batchAttempt svc env st batch)) = map paymentOperation batch"
  using assms
  by (simp_all add: batchAttempt_def buildTransaction_def isSubmission_def submittedOperations_def
        paymentOperation_def Let_def)

lemma processBatches_all_submitted:
  assumes "\<forall>tx. sdkBuild env tx = None"
  shows "length (filter isSubmission (events (processBatches svc env batches st)))
           = length (filter isSubmission (events st)) + length batches
       \<and> concat (map submittedOperations (events (processBatches svc env batches st)))
           = concat (map submittedOperations (events st)) @ map paymentOperation (concat batches)"
proof (induction batches arbitrary: st)
  case Nil
  then show ?case by simp
next
  case (Cons b bs)
  show ?case
    using Cons.IH [of "processBatch svc env st b"] batchAttempt_built [OF assms, of svc st b]
    by (simp add: processBatch_events)
qed

text \<open>
  Claim C3: for every list of valid instructions, the \<open>BatchResult\<close> that
  \<open>submitBatch\<close> returns holds exactly one \<open>PaymentResult\<close> per instruction, in the
  order of the instructions, each tagged success or failed and counted in the summary;
  this holds whatever the ledger answers to each batch, and a result is returned
  whenever the account could be loaded. No batch is skipped after a failure: from
  every state, processing a batch appends its results and, unless building its
  transaction throws, submits it; the ledger interactions of a run are the account load
  followed by the attempt of every batch in order; and when the SDK builds every
  transaction, there is one submission per batch and the submitted operations are
  those of all the instructions, in order.
\<close>

theorem submitBatch_accounts_for_every_instruction:
  assumes "\<forall>i \<in> set instructions. valid (validate i)"
  shows "(\<forall>r. snd (submitBatch svc validate env t instructions) = Inr r \<longrightarrow>
            map resultKey (BatchResult.results r) = map instructionKey instructions
          \<and> length (BatchResult.results r) = length instructions
          \<and> successful (summary r) = length (filter (\<lambda>p. status p = Success) (BatchResult.results r))
          \<and> failed (summary r) = length (filter (\<lambda>p. status p = Failed) (BatchResult.results r))
          \<and> successful (summary r) + failed (summary r) = length instructions)
       \<and> (\<forall>s. loadAccount env (publicKey svc) = Inr s \<longrightarrow>
            (\<exists>r. snd (submitBatch svc validate env t instructions) = Inr r))
       \<and> (\<forall>st batch.
            events (processBatch svc env st batch) = events st @ batchAttempt svc env st batch
          \<and> map resultKey (results (processBatch svc env st batch)) =
              map resultKey (results st) @ map instructionKey batch)
       \<and> (\<forall>s. loadAccount env (publicKey svc) = Inr s \<longrightarrow>
            (\<exists>batches. createPaymentBatches svc validate instructions = Inr batches
               \<and> concat batches = instructions
               \<and> fst (submitBatch svc validate env t instructions) =
                   AccountLoaded (publicKey svc) (Inr s) #
                   concat (map (\<lambda>(st, batch). batchAttempt svc env st batch)
                             (zip (statesBefore svc env batches
                                     \<lparr>results = [], successCount = 0, failCount = 0,
                                      sequenceNumber = s,
                                      events = [AccountLoaded (publicKey svc) (Inr s)]\<rparr>)
                                  batches))))
       \<and> ((\<forall>tx. sdkBuild env tx = None) \<longrightarrow>
            (\<forall>r. snd (submitBatch svc validate env t instructions) = Inr r \<longrightarrow>
               length (filter isSubmission (fst (submitBatch svc validate env t instructions)))
                 = totalTransactions r
             \<and> concat (map submittedOperations (fst (submitBatch svc validate env t instructions)))
                 = map paymentOperation instructions))"
proof -
  from createPaymentBatches_valid [OF assms] obtain batches where
    batches: "createPaymentBatches svc validate instructions = Inr batches"
    by blast
  have cat: "concat batches = instructions"
    by (rule createPaymentBatches_concat [OF batches])
  have returned: "\<exists>r. snd (submitBatch svc validate env t instructions) = Inr r"
    if s: "loadAccount env (publicKey svc) = Inr s" for s
    by (simp add: submitBatch_processed [OF s batches refl])
  have props: "map resultKey (BatchResult.results r) = map instructionKey instructions
          \<and> length (BatchResult.results r) = length instructions
          \<and> successful (summary r) = length (filter (\<lambda>p. status p = Success) (BatchResult.results r))
          \<and> failed (summary r) = length (filter (\<lambda>p. status p = Failed) (BatchResult.results r))
          \<and> successful (summary r) + failed (summary r) = length instructions"
    if r: "snd (submitBatch svc validate env t instructions) = Inr r" for r
  proof (cases "loadAccount env (publicKey svc)")
    case (Inl e)
    from r show ?thesis
      by (simp add: submitBatch_load_failed [OF Inl])
  next
    case (Inr s)
    define st0 where "st0 = \<lparr>results = [], successCount = 0, failCount = 0,
      sequenceNumber = s, events = [AccountLoaded (publicKey svc) (Inr s)]\<rparr>"
    define st where "st = processBatches svc env batches st0"
    have st: "st = processBatches svc env batches
          \<lparr>results = [], successCount = 0, failCount = 0, sequenceNumber = s,
           events = [AccountLoaded (publicKey svc) (Inr s)]\<rparr>"
      by (simp only: st_def st0_def)
    from r have res: "BatchResult.results r = results st"
      and sm: "summary r = \<lparr>successful = successCount st, failed = failCount st\<rparr>"
      unfolding submitBatch_processed [OF Inr batches st] by auto
    have keys: "map resultKey (results st) = map instructionKey instructions"
      using processBatches_keys [of svc env batches st0] by (simp add: st_def st0_def cat)
    have len: "length (results st) = length instructions"
      using arg_cong [OF keys, of length] by simp
    have counts: "successCount st = length (filter (\<lambda>p. status p = Success) (results st))"
      "failCount st = length (filter (\<lambda>p. status p = Failed) (results st))"
      using processBatches_counts [of st0 svc env batches] by (simp_all add: st_def st0_def)
    from keys len counts status_partition [of "results st"] show ?thesis
      by (simp add: res sm)
  qed
  have step: "events (processBatch svc env st batch) = events st @ batchAttempt svc env st batch
          \<and> map resultKey (results (processBatch svc env st batch)) =
              map resultKey (results st) @ map instructionKey batch" for st batch
    by (simp add: processBatch_events processBatch_keys)
  have trace: "\<exists>bs. createPaymentBatches svc validate instructions = Inr bs
               \<and> concat bs = instructions
               \<and> fst (submitBatch svc validate env t instructions) =
                   AccountLoaded (publicKey svc) (Inr s) #
                   concat (map (\<lambda>(st, batch). batchAttempt svc env st batch)
                             (zip (statesBefore svc env bs
                                     \<lparr>results = [], successCount = 0, failCount = 0,
                                      sequenceNumber = s,
                                      events = [AccountLoaded (publicKey svc) (Inr s)]\<rparr>)
                                  bs))"
    if s: "loadAccount env (publicKey svc) = Inr s" for s
  proof -
    have "fst (submitBatch svc validate env t instructions) =
            events (processBatches svc env batches
                      \<lparr>results = [], successCount = 0, failCount = 0, sequenceNumber = s,
                       events = [AccountLoaded (publicKey svc) (Inr s)]\<rparr>)"
      by (simp add: submitBatch_processed [OF s batches refl])
    then have "fst (submitBatch svc validate env t instructions) =
                   AccountLoaded (publicKey svc) (Inr s) #
                   concat (map (\<lambda>(st, batch). batchAttempt svc env st batch)
                             (zip (statesBefore svc env batches
                                     \<lparr>results = [], successCount = 0, failCount = 0,
                                      sequenceNumber = s,
                                      events = [AccountLoaded (publicKey svc) (Inr s)]\<rparr>)
                                  batches))"
      by (simp add: processBatches_events)
    with batches cat show ?thesis by blast
  qed
  have submitted: "length (filter isSubmission (fst (submitBatch svc validate env t instructions)))
                 = totalTransactions r
             \<and> concat (map submittedOperations (fst (submitBatch svc validate env t instructions)))
                 = map paymentOperation instructions"
    if builds: "\<forall>tx. sdkBuild env tx = None"
      and r: "snd (submitBatch svc validate env t instructions) = Inr r" for r
  proof (cases "loadAccount env (publicKey svc)")
    case (Inl e)
    from r show ?thesis
      by (simp add: submitBatch_load_failed [OF Inl])
  next
    case (Inr s)
    define st0 where "st0 = \<lparr>results = [], successCount = 0, failCount = 0,
      sequenceNumber = s, events = [AccountLoaded (publicKey svc) (Inr s)]\<rparr>"
    have run: "submitBatch svc validate env t instructions =
     (events (processBatches svc env batches st0),
      Inr \<lparr>totalRecipients = length instructions,
           totalAmount = foldl (\<lambda>acc inst. numberAdd acc (parseFloat (amount inst))) (Fin 0) instructions,
           totalTransactions = length batches,
           network = serviceNetwork svc,
           timestamp = t,
           results = results (processBatches svc env batches st0),
           summary = \<lparr>successful = successCount (processBatches svc env batches st0),
                      failed = failCount (processBatches svc env batches st0)\<rparr>\<rparr>)"
      unfolding st0_def by (rule submitBatch_processed [OF Inr batches refl])
    from r have tt: "totalTransactions r = length batches"
      unfolding run by auto
    have "length (filter isSubmission (events st0)) = 0"
      "concat (map submittedOperations (events st0)) = []"
      by (simp_all add: st0_def isSubmission_def submittedOperations_def)
    with processBatches_all_submitted [OF builds, of svc batches st0]
    show ?thesis
      by (simp add: run tt cat)
  qed
  from returned props step trace submitted show ?thesis by blast
qed

lemma samplePayments_valid: "\<forall>i \<in> set samplePayments. valid (sampleValidate i)"
  by (simp add: samplePayments_def sampleValidate_def literal_eval number_eval)

lemma sample_run:
  "submitBatch sampleService sampleValidate sampleEnvironment ''t0'' samplePayments =
    ([AccountLoaded ''GSOURCE'' (Inr 7),
      TransactionSubmitted
        \<lparr>sourcePublicKey = ''GSOURCE'', sourceSequenceNumber = 7, networkPassphrase = Testnet,
         operations =
           [Payment ''GBBD47UZM2HN7D7XZIZVG4KVAUC36THN5BES6RMNNOK5TUNXAUCVMAKER'' Native ''100'',
            Payment ''GBJCHUKZMTFSLOMNC7P4TS4VJJBTCYL3AEYZ7R37ZJNHYQM7MDEBC67'' Native ''50'']\<rparr>
        (Response False None (Some [''op_underfunded''])),
      TransactionSubmitted
        \<lparr>sourcePublicKey = ''GSOURCE'', sourceSequenceNumber = 7, networkPassphrase = Testnet,
         operations =
           [Payment ''GCNY5OXYSY4FKHOPT2SPOQZAOEIGKKAOMWCUT5LPYYCVYHIOW7MFTD'' Native ''75'']\<rparr>
        (Response True (Some ''hash'') None)],
     Inr \<lparr>totalRecipients = 3, totalAmount = Fin 225, totalTransactions = 2,
          network = Testnet, timestamp = ''t0'',
          results =
            [\<lparr>recipient = ''GBBD47UZM2HN7D7XZIZVG4KVAUC36THN5BES6RMNNOK5TUNXAUCVMAKER'',
              amount = ''100'', asset = ''XLM'', status = Failed,
              transactionHash = None, error = Some ''op_underfunded''\<rparr>,
             \<lparr>recipient = ''GBJCHUKZMTFSLOMNC7P4TS4VJJBTCYL3AEYZ7R37ZJNHYQM7MDEBC67'',
              amount = ''50'', asset = ''XLM'', status = Failed,
              transactionHash = None, error = Some ''op_underfunded''\<rparr>,
             \<lparr>recipient = ''GCNY5OXYSY4FKHOPT2SPOQZAOEIGKKAOMWCUT5LPYYCVYHIOW7MFTD'',
              amount = ''75'', asset = ''XLM'', status = Success,
              transactionHash = Some ''hash'', error = None\<rparr>],
          summary = \<lparr>successful = 1, failed = 2\<rparr>\<rparr>)"
  by (simp add: service_eval samplePayments_def literal_eval number_eval)

theorem submitBatch_accounts_for_every_instruction_witness:
  "map (\<lambda>i. valid (sampleValidate i)) samplePayments = [True, True, True]
   \<and> (\<exists>r. snd (submitBatch sampleService sampleValidate sampleEnvironment ''t0'' samplePayments) = Inr r
          \<and> map resultKey (BatchResult.results r) = map instructionKey samplePayments
          \<and> map status (BatchResult.results r) = [Failed, Failed, Success]
          \<and> summary r = \<lparr>successful = 1, failed = 2\<rparr>
          \<and> totalTransactions r = 2)
   \<and> length (filter isSubmission
         (fst (submitBatch sampleService sampleValidate sampleEnvironment ''t0'' samplePayments))) = 2
   \<and> concat (map submittedOperations
         (fst (submitBatch sampleService sampleValidate sampleEnvironment ''t0'' samplePayments)))
       = map paymentOperation samplePayments"
proof -
  note main = submitBatch_accounts_for_every_instruction [OF samplePayments_valid,
      of sampleService sampleEnvironment "''t0''"]
  have builds: "\<forall>tx. sdkBuild sampleEnvironment tx = None"
    by (simp add: sampleEnvironment_def)
  from main
  have keys: "\<forall>r. snd (submitBatch sampleService sampleValidate sampleEnvironment ''t0'' samplePayments) = Inr r \<longrightarrow>
          map resultKey (BatchResult.results r) = map instructionKey samplePayments"
    by blast
  from main builds
  have subs: "\<forall>r. snd (submitBatch sampleService sampleValidate sampleEnvironment ''t0'' samplePayments) = Inr r \<longrightarrow>
          length (filter isSubmission
            (fst (submitBatch sampleService sampleValidate sampleEnvironment ''t0'' samplePayments)))
              = totalTransactions r
          \<and> concat (map submittedOperations
            (fst (submitBatch sampleService sampleValidate sampleEnvironment ''t0'' samplePayments)))
              = map paymentOperation samplePayments"
    by blast
  have valid: "map (\<lambda>i. valid (sampleValidate i)) samplePayments = [True, True, True]"
    using samplePayments_valid by (simp add: samplePayments_def)
  obtain r where r: "snd (submitBatch sampleService sampleValidate sampleEnvironment ''t0'' samplePayments) = Inr r"
    and st: "map status (BatchResult.results r) = [Failed, Failed, Success]"
    and sm: "summary r = \<lparr>successful = 1, failed = 2\<rparr>"
    and tt: "totalTransactions r = 2"
    by (simp add: sample_run)
  from keys r have k: "map resultKey (BatchResult.results r) = map instructionKey samplePayments"
    by blast
  from subs r tt have s: "length (filter isSubmission
         (fst (submitBatch sampleService sampleValidate sampleEnvironment ''t0'' samplePayments))) = 2"
    "concat (map submittedOperations
         (fst (submitBatch sampleService sampleValidate sampleEnvironment ''t0'' samplePayments)))
       = map paymentOperation samplePayments"
    by simp_all
  show ?thesis
    by (intro conjI exI [of _ r]) (rule valid r k st sm tt s)+
qed

text \<open>
  Claim C4, as the code has it: when some instruction is invalid the run submits no
  transaction and ends in an error. The account is loaded first, so that load is the one
  ledger interaction of the run, and the instructions are validated after it; if the
  load succeeds, the error names the first invalid instruction.
\<close>

theorem invalid_input_stops_after_account_load:
  assumes "\<exists>i \<in> set instructions. \<not> valid (validate i)"
  shows "fst (submitBatch svc validate env t instructions) =
           [AccountLoaded (publicKey svc) (loadAccount env (publicKey svc))]
       \<and> (\<forall>ev \<in> set (fst (submitBatch svc validate env t instructions)). \<not> isSubmission ev)
       \<and> (\<exists>e. snd (submitBatch svc validate env t instructions) = Inl e)
       \<and> (\<forall>s. loadAccount env (publicKey svc) = Inr s \<longrightarrow>
            (\<exists>pre bad rest. instructions = pre @ bad # rest
               \<and> (\<forall>i \<in> set pre. valid (validate i)) \<and> \<not> valid (validate bad)
               \<and> snd (submitBatch svc validate env t instructions) =
                   Inl (InvalidPaymentInstruction (address bad) (ValidationResult.error (validate bad)))))"
proof -
  from first_invalid_split [of instructions "\<lambda>i. valid (validate i)", OF assms]
  obtain pre bad rest where split: "instructions = pre @ bad # rest"
    and pre: "\<forall>i \<in> set pre. valid (validate i)" and bad: "\<not> valid (validate bad)"
    by blast
  have cpb: "createPaymentBatches svc validate instructions =
      Inl (InvalidPaymentInstruction (address bad) (ValidationResult.error (validate bad)))"
    by (simp add: createPaymentBatches_def split createPaymentBatches_loop_first_invalid [OF pre bad])
  show ?thesis
  proof (cases "loadAccount env (publicKey svc)")
    case (Inl e)
    then show ?thesis
      by (simp add: submitBatch_load_failed [OF Inl] isSubmission_def)
  next
    case (Inr s)
    have run: "submitBatch svc validate env t instructions =
        ([AccountLoaded (publicKey svc) (Inr s)],
         Inl (InvalidPaymentInstruction (address bad) (ValidationResult.error (validate bad))))"
      by (rule submitBatch_invalid [OF Inr cpb])
    have "\<exists>pre bad rest. instructions = pre @ bad # rest
               \<and> (\<forall>i \<in> set pre. valid (validate i)) \<and> \<not> valid (validate bad)
               \<and> snd (submitBatch svc validate env t instructions) =
                   Inl (InvalidPaymentInstruction (address bad) (ValidationResult.error (validate bad)))"
      using split pre bad run by (intro exI [of _ pre] exI [of _ bad] exI [of _ rest]) simp
    then show ?thesis
      by (simp add: run Inr isSubmission_def)
  qed
qed

text \<open>An instruction with a negative amount and one with a malformed address.\<close>

lemma sample_invalid:
  "\<not> valid (sampleValidate \<lparr>address = ''GX'', amount = ''-1'', asset = ''XLM''\<rparr>)"
  "ValidationResult.error (sampleValidate \<lparr>address = ''GX'', amount = ''-1'', asset = ''XLM''\<rparr>)
     = Some ''Invalid amount''"
  "\<not> valid (sampleValidate \<lparr>address = ''X'', amount = ''1'', asset = ''XLM''\<rparr>)"
  by (simp_all add: sampleValidate_def literal_eval number_eval)

theorem invalid_input_stops_after_account_load_witness:
  "(\<exists>i \<in> set (samplePayments @ [\<lparr>address = ''GX'', amount = ''-1'', asset = ''XLM''\<rparr>]).
       \<not> valid (sampleValidate i))
   \<and> fst (submitBatch sampleService sampleValidate sampleEnvironment ''t0''
          (samplePayments @ [\<lparr>address = ''GX'', amount = ''-1'', asset = ''XLM''\<rparr>])) =
       [AccountLoaded ''GSOURCE'' (Inr 7)]"
proof -
  have inv: "\<exists>i \<in> set (samplePayments @ [\<lparr>address = ''GX'', amount = ''-1'', asset = ''XLM''\<rparr>]).
       \<not> valid (sampleValidate i)"
    using sample_invalid(1) by simp
  from inv invalid_input_stops_after_account_load [OF inv, of sampleService sampleEnvironment "''t0''"]
  show ?thesis
    by (simp add: sampleService_def sampleEnvironment_def)
qed

text \<open>
  Claim C4 as stated has the invalid input caught before any ledger interaction; on a
  single invalid instruction the run has loaded the account by the time it fails.
\<close>

theorem invalid_input_after_load_counterexample:
  "\<not> valid (sampleValidate \<lparr>address = ''GX'', amount = ''-1'', asset = ''XLM''\<rparr>)
   \<and> submitBatch sampleService sampleValidate sampleEnvironment ''t0''
         [\<lparr>address = ''GX'', amount = ''-1'', asset = ''XLM''\<rparr>] =
       ([AccountLoaded ''GSOURCE'' (Inr 7)],
        Inl (InvalidPaymentInstruction ''GX'' (Some ''Invalid amount'')))"
  by (simp add: service_eval literal_eval number_eval)

text \<open>
  Claim C5, as the code has it: the validation inside \<open>submitBatch\<close> (in
  \<open>createPaymentBatches\<close>) stops at the first invalid instruction and throws one error,
  naming that instruction's address and reason; what follows it in the list is not
  looked at and has no influence on the error.
\<close>

theorem createPaymentBatches_first_invalid_only:
  assumes "\<forall>i \<in> set pre. valid (validate i)" and "\<not> valid (validate bad)"
  shows "createPaymentBatches svc validate (pre @ bad # rest) =
           Inl (InvalidPaymentInstruction (address bad) (ValidationResult.error (validate bad)))
       \<and> createPaymentBatches svc validate (pre @ bad # rest) =
           createPaymentBatches svc validate (pre @ [bad])"
  by (simp add: createPaymentBatches_def createPaymentBatches_loop_first_invalid [OF assms])

theorem createPaymentBatches_first_invalid_only_witness:
  "map (\<lambda>i. valid (sampleValidate i)) samplePayments = [True, True, True]
   \<and> \<not> valid (sampleValidate \<lparr>address = ''GX'', amount = ''-1'', asset = ''XLM''\<rparr>)
   \<and> createPaymentBatches sampleService sampleValidate
         (samplePayments @ \<lparr>address = ''GX'', amount = ''-1'', asset = ''XLM''\<rparr>
            # [\<lparr>address = ''X'', amount = ''1'', asset = ''XLM''\<rparr>]) =
       Inl (InvalidPaymentInstruction ''GX'' (Some ''Invalid amount''))"
proof -
  have "map (\<lambda>i. valid (sampleValidate i)) samplePayments = [True, True, True]"
    using samplePayments_valid by (simp add: samplePayments_def)
  with createPaymentBatches_first_invalid_only [OF samplePayments_valid sample_invalid(1),
      of sampleService "[\<lparr>address = ''X'', amount = ''1'', asset = ''XLM''\<rparr>]"]
    sample_invalid
  show ?thesis by simp
qed

text \<open>
  Claim C5 as stated has every failing index reported. With two invalid instructions
  the error returned names the first only, and it is the same error as when the second
  instruction is valid.
\<close>

theorem createPaymentBatches_short_circuit_counterexample:
  "\<not> valid (sampleValidate \<lparr>address = ''GX'', amount = ''-1'', asset = ''XLM''\<rparr>)
   \<and> \<not> valid (sampleValidate \<lparr>address = ''X'', amount = ''1'', asset = ''XLM''\<rparr>)
   \<and> valid (sampleValidate \<lparr>address = ''GY'', amount = ''1'', asset = ''XLM''\<rparr>)
   \<and> createPaymentBatches sampleService sampleValidate
         [\<lparr>address = ''GX'', amount = ''-1'', asset = ''XLM''\<rparr>,
          \<lparr>address = ''X'', amount = ''1'', asset = ''XLM''\<rparr>] =
       Inl (InvalidPaymentInstruction ''GX'' (Some ''Invalid amount''))
   \<and> createPaymentBatches sampleService sampleValidate
         [\<lparr>address = ''GX'', amount = ''-1'', asset = ''XLM''\<rparr>,
          \<lparr>address = ''GY'', amount = ''1'', asset = ''XLM''\<rparr>] =
       Inl (InvalidPaymentInstruction ''GX'' (Some ''Invalid amount''))"
  by (simp add: createPaymentBatches_def sampleValidate_def sampleService_def literal_eval number_eval)

section \<open>Properties of the totals and of getBatchSummary\<close>

lemma getBatchSummary_loop_total:
  "fst (getBatchSummary_loop xs (t, ac)) =
     foldl (\<lambda>acc i. numberAdd acc (parseFloat (amount i))) t xs"
  by (induction xs arbitrary: t ac) simp_all

lemma getBatchSummary_loop_assets:
  "snd (getBatchSummary_loop xs (t, ac)) a =
     (if count_list (map asset xs) a = 0 then ac a
      else Some ((case ac a of None \<Rightarrow> 0 | Some c \<Rightarrow> c) + count_list (map asset xs) a))"
proof (induction xs arbitrary: t ac)
  case Nil
  then show ?case by simp
next
  case (Cons x xs)
  show ?case
    by (simp add: Cons.IH split: option.splits)
qed

lemma getBatchSummary_fields:
  "recipientCount (getBatchSummary xs) = length xs"
  "totalAmount (getBatchSummary xs) = foldl (\<lambda>acc i. numberAdd acc (parseFloat (amount i))) (Fin 0) xs"
  "assetBreakdown (getBatchSummary xs) =
     (\<lambda>a. if count_list (map asset xs) a = 0 then None else Some (count_list (map asset xs) a))"
proof -
  obtain t ac where loop: "getBatchSummary_loop xs (Fin 0, Map.empty) = (t, ac)"
    by (cases "getBatchSummary_loop xs (Fin 0, Map.empty)")
  show "recipientCount (getBatchSummary xs) = length xs"
    by (simp add: getBatchSummary_def loop)
  have "fst (getBatchSummary_loop xs (Fin 0, Map.empty)) =
          foldl (\<lambda>acc i. numberAdd acc (parseFloat (amount i))) (Fin 0) xs"
    by (rule getBatchSummary_loop_total)
  then show "totalAmount (getBatchSummary xs) = foldl (\<lambda>acc i. numberAdd acc (parseFloat (amount i))) (Fin 0) xs"
    by (simp add: getBatchSummary_def loop)
  have "ac a = (if count_list (map asset xs) a = 0 then None else Some (count_list (map asset xs) a))" for a
    using getBatchSummary_loop_assets [of xs "Fin 0" Map.empty a] by (simp add: loop)
  then show "assetBreakdown (getBatchSummary xs) =
     (\<lambda>a. if count_list (map asset xs) a = 0 then None else Some (count_list (map asset xs) a))"
    by (simp add: getBatchSummary_def loop fun_eq_iff)
qed

lemma parseFloat_decimal:
  assumes "decimalAmount i" and "isDouble (amountValue i)"
  shows "parseFloat (amount i) = Fin (amountValue i)"
proof -
  from assms(1) obtain v where v: "strDecimalLiteral (trimStart (amount i)) = DecimalLiteral v"
    by (auto simp: decimalAmount_def split: literal_value.splits)
  then have av: "amountValue i = v"
    by (simp add: amountValue_def)
  from assms(2) have "roundToDouble v = Fin v"
    unfolding av by (rule roundToDouble_exact)
  with v show ?thesis
    by (simp add: parseFloat_def av)
qed

lemma foldl_numberAdd_exact:
  assumes "\<forall>i \<in> set xs. decimalAmount i \<and> isDouble (amountValue i)"
    and "\<forall>k \<le> length xs. isDouble (s + sum_list (map amountValue (take k xs)))"
  shows "foldl (\<lambda>acc i. numberAdd acc (parseFloat (amount i))) (Fin s) xs
           = Fin (s + sum_list (map amountValue xs))"
  using assms
proof (induction xs arbitrary: s)
  case Nil
  then show ?case by simp
next
  case (Cons x xs)
  have px: "parseFloat (amount x) = Fin (amountValue x)"
    using Cons.prems(1) by (simp add: parseFloat_decimal)
  have "1 \<le> length (x # xs)" by simp
  with Cons.prems(2) have "isDouble (s + sum_list (map amountValue (take 1 (x # xs))))"
    by blast
  then have "isDouble (s + amountValue x)"
    by simp
  then have rd: "roundToDouble (s + amountValue x) = Fin (s + amountValue x)"
    by (rule roundToDouble_exact)
  have rest: "\<forall>k \<le> length xs. isDouble ((s + amountValue x) + sum_list (map amountValue (take k xs)))"
  proof (intro allI impI)
    fix k assume "k \<le> length xs"
    then have "Suc k \<le> length (x # xs)" by simp
    with Cons.prems(2) have "isDouble (s + sum_list (map amountValue (take (Suc k) (x # xs))))"
      by blast
    then show "isDouble ((s + amountValue x) + sum_list (map amountValue (take k xs)))"
      by (simp add: add.assoc)
  qed
  have "foldl (\<lambda>acc i. numberAdd acc (parseFloat (amount i))) (Fin (s + amountValue x)) xs
          = Fin ((s + amountValue x) + sum_list (map amountValue xs))"
    using Cons.prems(1) rest by (intro Cons.IH) simp_all
  then show ?case
    by (simp add: px rd add.assoc)
qed

lemma isDouble_of_nat:
  assumes "n < 2 ^ 53"
  shows "isDouble (of_nat n)"
proof -
  have "(of_nat n :: rat) = of_int (int n) * pow2 0 \<and> \<bar>int n\<bar> < 2 ^ 53 \<and> - 1074 \<le> (0::int) \<and> (0::int) \<le> 971"
    using assms by (simp add: pow2_def)
  then show ?thesis unfolding isDouble_def by blast
qed

lemma sum_list_Nats:
  "\<forall>i \<in> set xs. f i \<in> \<nat> \<Longrightarrow> sum_list (map f xs) \<in> (\<nat> :: rat set)"
  by (induction xs) (auto intro: Nats_add)

lemma sum_list_take_le:
  "\<forall>i \<in> set xs. (0::rat) \<le> f i \<Longrightarrow> sum_list (map f (take k xs)) \<le> sum_list (map f xs)"
proof -
  assume nonneg: "\<forall>i \<in> set xs. (0::rat) \<le> f i"
  have "sum_list (map f xs) = sum_list (map f (take k xs)) + sum_list (map f (drop k xs))"
    by (metis append_take_drop_id map_append sum_list_append)
  moreover have "0 \<le> sum_list (map f (drop k xs))"
    using nonneg by (intro sum_list_nonneg) (auto dest: in_set_dropD)
  ultimately show ?thesis by simp
qed

lemma whole_amounts_exact:
  assumes "\<forall>i \<in> set xs. decimalAmount i \<and> amountValue i \<in> \<nat>"
    and "sum_list (map amountValue xs) < 2 ^ 53"
  shows "totalAmount (getBatchSummary xs) = Fin (sum_list (map amountValue xs))"
proof -
  have nonneg: "\<forall>i \<in> set xs. 0 \<le> amountValue i"
    using assms(1) by (auto simp: Nats_def)
  have partial: "isDouble (sum_list (map amountValue (take k xs)))" for k
  proof -
    have "sum_list (map amountValue (take k xs)) \<in> \<nat>"
      using assms(1) by (intro sum_list_Nats) (auto dest: in_set_takeD)
    then obtain n where n: "sum_list (map amountValue (take k xs)) = of_nat n"
      by (auto simp: Nats_def)
    have "sum_list (map amountValue (take k xs)) < 2 ^ 53"
      using sum_list_take_le [OF nonneg, of k] assms(2) by simp
    then have "(of_nat n :: rat) < of_nat (2 ^ 53)"
      by (simp add: n)
    then have "n < 2 ^ 53"
      by (simp only: of_nat_less_iff)
    then show ?thesis
      unfolding n by (rule isDouble_of_nat)
  qed
  have each: "\<forall>i \<in> set xs. decimalAmount i \<and> isDouble (amountValue i)"
  proof
    fix i assume i: "i \<in> set xs"
    then obtain j where j: "j < length xs" "xs ! j = i"
      by (auto simp: in_set_conv_nth)
    from i assms(1) obtain n where n: "amountValue i = of_nat n"
      by (auto simp: Nats_def)
    have "amountValue i \<le> sum_list (map amountValue xs)"
      using i nonneg by (intro member_le_sum_list) auto
    with assms(2) have "(of_nat n :: rat) < of_nat (2 ^ 53)"
      by (simp add: n)
    then have "n < 2 ^ 53"
      by (simp only: of_nat_less_iff)
    then have "isDouble (amountValue i)"
      unfolding n by (rule isDouble_of_nat)
    with i assms(1) show "decimalAmount i \<and> isDouble (amountValue i)" by blast
  qed
  have "foldl (\<lambda>acc i. numberAdd acc (parseFloat (amount i))) (Fin 0) xs
          = Fin (0 + sum_list (map amountValue xs))"
    using each partial by (intro foldl_numberAdd_exact) simp_all
  then show ?thesis
    by (simp add: getBatchSummary_fields)
qed

lemma submitBatch_totalAmount:
  assumes "snd (submitBatch svc validate env t instructions) = Inr r"
  shows "BatchResult.totalAmount r = totalAmount (getBatchSummary instructions)"
proof (cases "loadAccount env (publicKey svc)")
  case (Inl e)
  with assms show ?thesis
    by (simp add: submitBatch_load_failed [OF Inl])
next
  case (Inr s)
  show ?thesis
  proof (cases "createPaymentBatches svc validate instructions")
    case (Inl e)
    with assms show ?thesis
      by (simp add: submitBatch_invalid [OF Inr Inl])
  next
    case batches: (Inr batches)
    from assms show ?thesis
      unfolding submitBatch_processed [OF Inr batches refl]
      by (auto simp: getBatchSummary_fields)
  qed
qed

text \<open>
  Claim C6, as the code has it: both totals are sums of binary64 numbers. Each amount
  goes through \<open>parseFloat\<close> and the numbers are added from the left, starting at 0,
  each addition rounding to the nearest number; \<open>submitBatch\<close> and \<open>getBatchSummary\<close>
  compute the same total. The total is the exact sum of the decimal amounts whenever
  every amount and every partial sum is itself a binary64 value, as for 10.5 + 20.25.
\<close>

theorem totalAmount_is_binary64_sum:
  "totalAmount (getBatchSummary instructions) =
     foldl (\<lambda>acc i. numberAdd acc (parseFloat (amount i))) (Fin 0) instructions
   \<and> (\<forall>r. snd (submitBatch svc validate env t instructions) = Inr r \<longrightarrow>
          BatchResult.totalAmount r = totalAmount (getBatchSummary instructions))
   \<and> ((\<forall>i \<in> set instructions. decimalAmount i \<and> isDouble (amountValue i))
        \<and> (\<forall>k \<le> length instructions. isDouble (sum_list (map amountValue (take k instructions))))
      \<longrightarrow> totalAmount (getBatchSummary instructions) = Fin (sum_list (map amountValue instructions)))"
proof -
  have exact: "totalAmount (getBatchSummary instructions) = Fin (sum_list (map amountValue instructions))"
    if each: "\<forall>i \<in> set instructions. decimalAmount i \<and> isDouble (amountValue i)"
      and partial: "\<forall>k \<le> length instructions. isDouble (sum_list (map amountValue (take k instructions)))"
  proof -
    have "foldl (\<lambda>acc i. numberAdd acc (parseFloat (amount i))) (Fin 0) instructions
            = Fin (0 + sum_list (map amountValue instructions))"
      using each partial by (intro foldl_numberAdd_exact) simp_all
    then show ?thesis
      by (simp add: getBatchSummary_fields)
  qed
  from exact submitBatch_totalAmount getBatchSummary_fields(2) [of instructions]
  show ?thesis by blast
qed

lemma isDoubleI:
  "x = of_int n * pow2 k \<Longrightarrow> \<bar>n\<bar> < 2 ^ 53 \<Longrightarrow> - 1074 \<le> k \<Longrightarrow> k \<le> 971 \<Longrightarrow> isDouble x"
  unfolding isDouble_def by blast

theorem totalAmount_is_binary64_sum_witness:
  "decimalAmount tenAndHalf \<and> isDouble (amountValue tenAndHalf)
   \<and> decimalAmount twentyAndQuarter \<and> isDouble (amountValue twentyAndQuarter)
   \<and> isDouble (sum_list (map amountValue (take 0 [tenAndHalf, twentyAndQuarter])))
   \<and> isDouble (sum_list (map amountValue (take 1 [tenAndHalf, twentyAndQuarter])))
   \<and> isDouble (sum_list (map amountValue (take 2 [tenAndHalf, twentyAndQuarter])))
   \<and> sum_list (map amountValue [tenAndHalf, twentyAndQuarter]) = 123 / 4
   \<and> totalAmount (getBatchSummary [tenAndHalf, twentyAndQuarter]) = Fin (123 / 4)"
proof -
  have v: "amountValue tenAndHalf = 21 / 2" "amountValue twentyAndQuarter = 81 / 4"
    "decimalAmount tenAndHalf" "decimalAmount twentyAndQuarter"
    by (simp_all add: amountValue_def decimalAmount_def tenAndHalf_def twentyAndQuarter_def
          literal_eval)
  have d: "isDouble 0" "isDouble (21 / 2)" "isDouble (81 / 4)" "isDouble (123 / 4)"
    by (rule isDoubleI [of _ 0 0], simp_all add: pow2_def)
       (rule isDoubleI [of _ 21 "- 1"], simp_all add: pow2_def,
        rule isDoubleI [of _ 81 "- 2"], simp_all add: pow2_def,
        rule isDoubleI [of _ 123 "- 2"], simp_all add: pow2_def)
  have each: "\<forall>i \<in> set [tenAndHalf, twentyAndQuarter]. decimalAmount i \<and> isDouble (amountValue i)"
    by (simp add: v d)
  have partial: "\<forall>k \<le> length [tenAndHalf, twentyAndQuarter].
         isDouble (sum_list (map amountValue (take k [tenAndHalf, twentyAndQuarter])))"
  proof (intro allI impI)
    fix k :: nat assume "k \<le> length [tenAndHalf, twentyAndQuarter]"
    then consider "k = 0" | "k = 1" | "k = 2" by fastforce
    then show "isDouble (sum_list (map amountValue (take k [tenAndHalf, twentyAndQuarter])))"
      by cases (simp_all add: v d)
  qed
  have "totalAmount (getBatchSummary [tenAndHalf, twentyAndQuarter]) =
          Fin (sum_list (map amountValue [tenAndHalf, twentyAndQuarter]))"
    using each partial
      totalAmount_is_binary64_sum [of "[tenAndHalf, twentyAndQuarter]" sampleService sampleValidate
        sampleEnvironment "''t0''"]
    by blast
  then have "totalAmount (getBatchSummary [tenAndHalf, twentyAndQuarter]) = Fin (123 / 4)"
    by (simp add: v)
  then show ?thesis
    by (simp add: v d)
qed

text \<open>
  Claim C6 as stated has the sum exact for amounts within seven decimal places. The
  amounts 0.1 and 0.2, whose decimal sum is 0.3, total to the number
  0.3000000000000000444..., which is neither 3/10 nor the number that \<open>0.3\<close> denotes;
  so the total does not print as \<open>0.3\<close>.
\<close>

theorem totalAmount_not_exact_counterexample:
  "amountValue tenth + amountValue fifth = 3 / 10
   \<and> totalAmount (getBatchSummary [tenth, fifth]) = Fin (1351079888211149 / 4503599627370496)
   \<and> totalAmount (getBatchSummary [tenth, fifth]) \<noteq> Fin (3 / 10)
   \<and> totalAmount (getBatchSummary [tenth, fifth]) \<noteq> parseFloat ''0.3''
   \<and> map_sum id BatchResult.totalAmount
         (snd (submitBatch sampleService sampleValidate sampleEnvironment ''t0'' [tenth, fifth]))
       = Inr (Fin (1351079888211149 / 4503599627370496))"
proof -
  have v: "amountValue tenth + amountValue fifth = 3 / 10"
    by (simp add: amountValue_def tenth_def fifth_def literal_eval)
  have tot: "totalAmount (getBatchSummary [tenth, fifth]) = Fin (1351079888211149 / 4503599627370496)"
    by (simp add: getBatchSummary_fields tenth_def fifth_def literal_eval number_eval)
  have valid: "\<forall>i \<in> set [tenth, fifth]. valid (sampleValidate i)"
    by (simp add: tenth_def fifth_def sampleValidate_def literal_eval number_eval)
  from createPaymentBatches_valid [OF valid] obtain batches where
    "createPaymentBatches sampleService sampleValidate [tenth, fifth] = Inr batches"
    by blast
  then have "\<exists>r. snd (submitBatch sampleService sampleValidate sampleEnvironment ''t0'' [tenth, fifth]) = Inr r"
    by (subst submitBatch_processed [where s = 7, OF _ _ refl])
       (simp_all add: sampleEnvironment_def)
  then obtain r where r: "snd (submitBatch sampleService sampleValidate sampleEnvironment ''t0'' [tenth, fifth]) = Inr r"
    by blast
  have "BatchResult.totalAmount r = Fin (1351079888211149 / 4503599627370496)"
    using submitBatch_totalAmount [OF r] tot by simp
  moreover have "parseFloat ''0.3'' = Fin (5404319552844595 / 18014398509481984)"
    by (simp add: literal_eval number_eval)
  ultimately show ?thesis
    using v tot by (simp add: r)
qed

text \<open>
  Claim C7, as the code has it: for every permutation of an instruction list,
  \<open>getBatchSummary\<close> returns the same \<open>assetBreakdown\<close> and the same
  \<open>recipientCount\<close>. The \<open>totalAmount\<close> is the same whenever the amounts are whole
  non-negative numbers with a sum below \<open>2^53\<close>, where every addition is exact; in
  general the rounded additions depend on the order.
\<close>

theorem getBatchSummary_permutation:
  assumes "mset xs = mset ys"
  shows "assetBreakdown (getBatchSummary xs) = assetBreakdown (getBatchSummary ys)
       \<and> recipientCount (getBatchSummary xs) = recipientCount (getBatchSummary ys)
       \<and> ((\<forall>i \<in> set xs. decimalAmount i \<and> amountValue i \<in> \<nat>)
            \<and> sum_list (map amountValue xs) < 2 ^ 53
          \<longrightarrow> totalAmount (getBatchSummary xs) = totalAmount (getBatchSummary ys))"
proof -
  have "mset (map asset xs) = mset (map asset ys)"
    using assms by simp
  then have "count_list (map asset xs) = count_list (map asset ys)"
    by (metis count_mset ext)
  then have assets: "assetBreakdown (getBatchSummary xs) = assetBreakdown (getBatchSummary ys)"
    by (simp only: getBatchSummary_fields)
  have len: "recipientCount (getBatchSummary xs) = recipientCount (getBatchSummary ys)"
    using assms by (simp add: getBatchSummary_fields) (metis size_mset)
  have tot: "totalAmount (getBatchSummary xs) = totalAmount (getBatchSummary ys)"
    if whole: "\<forall>i \<in> set xs. decimalAmount i \<and> amountValue i \<in> \<nat>"
      and bound: "sum_list (map amountValue xs) < 2 ^ 53"
  proof -
    have set_eq: "set ys = set xs"
      using assms by (metis mset_eq_setD)
    have "mset (map amountValue xs) = mset (map amountValue ys)"
      using assms by simp
    then have sum_eq: "sum_list (map amountValue ys) = sum_list (map amountValue xs)"
      by (metis sum_mset_sum_list)
    have "totalAmount (getBatchSummary xs) = Fin (sum_list (map amountValue xs))"
      by (rule whole_amounts_exact [OF whole bound])
    moreover have "totalAmount (getBatchSummary ys) = Fin (sum_list (map amountValue ys))"
      using whole bound by (intro whole_amounts_exact) (simp_all add: set_eq sum_eq)
    ultimately show ?thesis
      by (simp add: sum_eq)
  qed
  from assets len tot show ?thesis by blast
qed

theorem getBatchSummary_permutation_witness:
  "mset samplePayments = mset (rev samplePayments)
   \<and> map decimalAmount samplePayments = [True, True, True]
   \<and> map amountValue samplePayments = [100, 50, 75]
   \<and> sum_list (map amountValue samplePayments) < 2 ^ 53
   \<and> totalAmount (getBatchSummary (rev samplePayments)) = Fin 225
   \<and> assetBreakdown (getBatchSummary (rev samplePayments)) ''XLM'' = Some 3"
proof -
  have perm: "mset samplePayments = mset (rev samplePayments)"
    by simp
  have vals: "map decimalAmount samplePayments = [True, True, True]"
    "map amountValue samplePayments = [100, 50, 75]"
    by (simp_all add: samplePayments_def decimalAmount_def amountValue_def literal_eval)
  have whole: "\<forall>i \<in> set samplePayments. decimalAmount i \<and> amountValue i \<in> \<nat>"
    by (simp add: samplePayments_def decimalAmount_def amountValue_def literal_eval)
  have bound: "sum_list (map amountValue samplePayments) < 2 ^ 53"
    by (simp add: vals)
  have direct: "totalAmount (getBatchSummary samplePayments) = Fin 225"
    "assetBreakdown (getBatchSummary samplePayments) ''XLM'' = Some 3"
    by (simp_all add: getBatchSummary_def samplePayments_def literal_eval number_eval)
  from getBatchSummary_permutation [OF perm] whole bound
  have "totalAmount (getBatchSummary samplePayments) = totalAmount (getBatchSummary (rev samplePayments))"
    "assetBreakdown (getBatchSummary samplePayments) = assetBreakdown (getBatchSummary (rev samplePayments))"
    by blast+
  with direct perm vals bound show ?thesis
    by metis
qed

text \<open>
  Claim C7 as stated covers \<open>totalAmount\<close> for every list. The amounts 0.1, 0.2, 0.3
  total to 0.6000000000000001 in this order and to 0.6 in the reverse order.
\<close>

theorem getBatchSummary_order_counterexample:
  "mset [tenth, fifth, threeTenths] = mset [threeTenths, fifth, tenth]
   \<and> totalAmount (getBatchSummary [tenth, fifth, threeTenths])
       = Fin (1351079888211149 / 2251799813685248)
   \<and> totalAmount (getBatchSummary [threeTenths, fifth, tenth])
       = Fin (5404319552844595 / 9007199254740992)
   \<and> totalAmount (getBatchSummary [tenth, fifth, threeTenths])
       \<noteq> totalAmount (getBatchSummary [threeTenths, fifth, tenth])"
proof -
  have a: "totalAmount (getBatchSummary [tenth, fifth, threeTenths])
       = Fin (1351079888211149 / 2251799813685248)"
    by (simp add: getBatchSummary_fields tenth_def fifth_def threeTenths_def literal_eval number_eval)
  have b: "totalAmount (getBatchSummary [threeTenths, fifth, tenth])
       = Fin (5404319552844595 / 9007199254740992)"
    by (simp add: getBatchSummary_fields tenth_def fifth_def threeTenths_def literal_eval number_eval)
  have "mset [tenth, fifth, threeTenths] = mset [threeTenths, fifth, tenth]"
    by (simp add: add_mset_commute)
  with a b show ?thesis by simp
qed

end
